theory Spec2Isabelle
  imports Main "HOL-Library.Word" "HOL-Library.Log_Nat" "HOL-Library.Sublist"
begin

section \<open>Image processor (core/image\_processor.py)\<close>

subsection \<open>Images\<close>

text \<open>
  A Pillow image is its mode, its size and its pixel data. \<open>preprocess_image\<close> lets only the
  modes RGB and RGBA through (every other mode is converted to RGB first), so these two are
  the modes of the model. A pixel is the list of its bands (three bytes for RGB, four for
  RGBA), the pixel data is the list of pixels in row-major order.
\<close>

datatype mode = RGB | RGBA

type_synonym pixel = "8 word list"

record image =
  mode :: mode
  width :: int
  height :: int
  pixels :: "pixel list"

text \<open>
  Log records. The messages of the source are Chinese format strings; a record keeps the
  level, the call site and the values formatted into the message.
\<close>

datatype safety_msg =
    No_msg                        \<comment> \<open>the empty string\<close>
  | Too_large int int             \<comment> \<open>pixels, MAX_IMAGE_PIXELS\<close>

datatype log =
    Warning_large_image int int int     \<comment> \<open>pixels, width, height\<close>
  | Error_safety_check safety_msg
  | Warning_skip_watermark
  | Error_watermark_none

subsection \<open>Constants of \<open>ImageProcessor\<close>\<close>

definition MAX_IMAGE_PIXELS :: int where
  "MAX_IMAGE_PIXELS = 10000 * 10000"

definition WARNING_PIXELS :: int where
  "WARNING_PIXELS = 5000 * 5000"

definition LARGE_IMAGE_MARGIN :: int where
  "LARGE_IMAGE_MARGIN = 64"

definition SMALL_IMAGE_MARGIN :: int where
  "SMALL_IMAGE_MARGIN = 32"

definition LARGE_IMAGE_THRESHOLD :: int where
  "LARGE_IMAGE_THRESHOLD = 1024"

definition ALPHA_THRESHOLD :: "8 word" where
  "ALPHA_THRESHOLD = 10"

subsection \<open>\<open>check_image_safety\<close>\<close>

text \<open>
  Returns the pair of the source (\<open>is_safe\<close>, message) and the log records written.
\<close>

definition check_image_safety :: "image \<Rightarrow> (bool \<times> safety_msg) \<times> log list" where
  "check_image_safety img =
     (let pixels = width img * height img in
      if pixels > MAX_IMAGE_PIXELS then ((False, Too_large pixels MAX_IMAGE_PIXELS), [])
      else if pixels > WARNING_PIXELS
        then ((True, No_msg), [Warning_large_image pixels (width img) (height img)])
      else ((True, No_msg), []))"

subsection \<open>\<open>_calculate_gemini_position\<close>\<close>

definition calculate_gemini_position :: "int \<Rightarrow> int \<Rightarrow> image \<Rightarrow> int \<times> int" where
  "calculate_gemini_position img_width img_height watermark =
     (let wm_width = width watermark; wm_height = height watermark;
          margin = (if img_width > LARGE_IMAGE_THRESHOLD \<and> img_height > LARGE_IMAGE_THRESHOLD
                    then LARGE_IMAGE_MARGIN else SMALL_IMAGE_MARGIN);
          x = img_width - margin - wm_width;
          y = img_height - margin - wm_height
      in (x, y))"

subsection \<open>Python floats\<close>

text \<open>
  A finite Python float is the rational number it denotes. \<open>fl\<close> rounds a rational to the
  nearest IEEE 754 binary64 number, ties to even: 53 significant bits, the exponent bounded
  below by the subnormal range. Overflow to infinity (magnitudes of 2^1024 and more) is not
  modelled. \<open>rne\<close> rounds to the nearest integer, ties to even; \<open>ilog2 x\<close> is the integer
  part of the binary logarithm of a positive \<open>x\<close>. A float literal is rounded once
  (\<open>0.13\<close> is \<open>fl (13 / 100)\<close>), a float operation rounds its exact result, and an \<open>int\<close>
  operand of a float operation is converted to a float first.
\<close>

definition rne :: "rat \<Rightarrow> int" where
  "rne x = (let f = \<lfloor>x\<rfloor>; d = x - of_int f in
            if d < 1 / 2 then f else if 1 / 2 < d then f + 1
            else if even f then f else f + 1)"

definition ilog2 :: "rat \<Rightarrow> int" where
  "ilog2 x = (if 1 \<le> x then bitlen \<lfloor>x\<rfloor> - 1 else - bitlen (\<lceil>1 / x\<rceil> - 1))"

definition fl :: "rat \<Rightarrow> rat" where
  "fl x = (if x = 0 then 0
           else (let u = power_int 2 (max (ilog2 \<bar>x\<bar> - 52) (- 1074))
                 in sgn x * of_int (rne (\<bar>x\<bar> / u)) * u))"

text \<open>\<open>int (x)\<close> on a float truncates towards zero.\<close>

definition py_int_of_float :: "rat \<Rightarrow> int" where
  "py_int_of_float x = (if 0 \<le> x then \<lfloor>x\<rfloor> else \<lceil>x\<rceil>)"

definition DOUBAO_SIZE_RATIO :: rat where
  "DOUBAO_SIZE_RATIO = fl (13 / 100)"

definition DOUBAO_MARGIN_RATIO :: rat where
  "DOUBAO_MARGIN_RATIO = fl (3 / 100)"

subsection \<open>Pillow, as parameters\<close>

text \<open>
  Resampling (\<open>Image.resize\<close> with the LANCZOS filter) and blending (\<open>Image.paste\<close> with a
  mask) are library code. The model takes what they compute as parameters: functions of
  the contents of the images involved, \<open>None\<close> when Pillow raises (a target size below one
  pixel, for instance).
\<close>

record pillow =
  resize_lanczos :: "image \<Rightarrow> int \<times> int \<Rightarrow> image option"
  paste_masked :: "image \<Rightarrow> image \<Rightarrow> int \<times> int \<Rightarrow> image \<Rightarrow> image option"

datatype exn = ZeroDivisionError | Pillow_error

text \<open>
  \<open>Image.convert\<close> between the two modes: to RGBA an opaque alpha band is added, to RGB
  the alpha band is dropped. Converting to the mode an image already has copies it.
\<close>

definition convert_image :: "mode \<Rightarrow> image \<Rightarrow> image" where
  "convert_image m img =
     (if mode img = m then img
      else (case m of
              RGBA \<Rightarrow> img\<lparr>mode := RGBA, pixels := map (\<lambda>p. p @ [255]) (pixels img)\<rparr>
            | RGB \<Rightarrow> img\<lparr>mode := RGB, pixels := map (take 3) (pixels img)\<rparr>))"

subsection \<open>Image objects\<close>

text \<open>
  Images are mutable objects. The store is the list of the objects allocated so far, a
  reference is an index into it. \<open>copy\<close>, \<open>convert\<close> and \<open>resize\<close> allocate a new object;
  \<open>paste\<close> and \<open>putalpha\<close> write to an existing one.
\<close>

type_synonym ref = nat

type_synonym heap = "image list"

definition img_copy :: "heap \<Rightarrow> ref \<Rightarrow> ref \<times> heap" where
  "img_copy h r = (length h, h @ [h ! r])"

definition img_convert :: "heap \<Rightarrow> ref \<Rightarrow> mode \<Rightarrow> ref \<times> heap" where
  "img_convert h r m = (length h, h @ [convert_image m (h ! r)])"

definition img_resize :: "pillow \<Rightarrow> heap \<Rightarrow> ref \<Rightarrow> int \<times> int \<Rightarrow> (ref \<times> heap) option" where
  "img_resize P h r sz =
     (case resize_lanczos P (h ! r) sz of
        None \<Rightarrow> None
      | Some img \<Rightarrow> Some (length h, h @ [img]))"

definition img_paste :: "pillow \<Rightarrow> heap \<Rightarrow> ref \<Rightarrow> ref \<Rightarrow> int \<times> int \<Rightarrow> ref \<Rightarrow> heap option" where
  "img_paste P h dst src box msk =
     (case paste_masked P (h ! dst) (h ! src) box (h ! msk) of
        None \<Rightarrow> None
      | Some img \<Rightarrow> Some (h[dst := img]))"

subsection \<open>\<open>_apply_opacity\<close>\<close>

text \<open>
  \<open>getchannel ("A")\<close> reads the fourth band, \<open>point\<close> maps it through a table of 256
  entries (Pillow clips the entries to a byte), \<open>putalpha\<close> writes the new band into the
  watermark object itself. The callers pass an RGBA image. In \<open>255 * opacity\<close> the
  integer 255 is exact as a float and the product is rounded.
\<close>

definition clip8 :: "int \<Rightarrow> 8 word" where
  "clip8 v = (if v < 0 then 0 else if 255 < v then 255 else word_of_int v)"

definition with_opacity :: "image \<Rightarrow> rat \<Rightarrow> image" where
  "with_opacity watermark opacity =
     (let alpha = map (\<lambda>p. p ! 3) (pixels watermark);
          new_alpha = map (\<lambda>v. if v > ALPHA_THRESHOLD
                                then clip8 (py_int_of_float (fl (255 * opacity))) else 0) alpha
      in watermark\<lparr>pixels := map2 (\<lambda>p a. take 3 p @ [a]) (pixels watermark) new_alpha\<rparr>)"

definition apply_opacity :: "heap \<Rightarrow> ref \<Rightarrow> rat \<Rightarrow> ref \<times> heap" where
  "apply_opacity h watermark opacity =
     (watermark, h[watermark := with_opacity (h ! watermark) opacity])"

subsection \<open>\<open>apply_gemini_watermark\<close>\<close>

text \<open>
  The result is what the call returns or raises, the log records it writes, and the store
  it leaves.
\<close>

definition apply_gemini_watermark ::
  "pillow \<Rightarrow> heap \<Rightarrow> ref \<Rightarrow> ref \<Rightarrow> rat \<Rightarrow> (exn + ref option) \<times> log list \<times> heap" where
  "apply_gemini_watermark P h img watermark opacity =
     (case check_image_safety (h ! img) of
        ((False, error_msg), lg) \<Rightarrow> (Inr None, lg @ [Error_safety_check error_msg], h)
      | ((True, _), lg) \<Rightarrow>
          (let (result, h) = img_copy h img;
               (result, h) = (if mode (h ! result) \<noteq> RGBA then img_convert h result RGBA
                              else (result, h));
               (img_width, img_height) = (width (h ! result), height (h ! result));
               (wm_width, wm_height) = (width (h ! watermark), height (h ! watermark));
               (x, y) = calculate_gemini_position img_width img_height (h ! watermark)
           in if x < 0 \<or> y < 0 then
                (let (r, h) = img_convert h img RGB
                 in (Inr (Some r), lg @ [Warning_skip_watermark], h))
              else
                (case img_resize P h watermark (wm_width, wm_height) of
                   None \<Rightarrow> (Inl Pillow_error, lg, h)
                 | Some (resized_watermark, h) \<Rightarrow>
                     (let (resized_watermark, h) =
                            (if mode (h ! resized_watermark) \<noteq> RGBA
                             then img_convert h resized_watermark RGBA
                             else (resized_watermark, h));
                          (resized_watermark, h) = apply_opacity h resized_watermark opacity
                      in (case img_paste P h result resized_watermark (x, y) resized_watermark of
                            None \<Rightarrow> (Inl Pillow_error, lg, h)
                          | Some h \<Rightarrow>
                              (let (r, h) = img_convert h result RGB
                               in (Inr (Some r), lg, h)))))))"

subsection \<open>The doubao geometry\<close>

text \<open>
  \<open>DOUBAN_ASPECT_RATIO\<close> is imported from the module \<open>constants\<close>; it is a parameter here,
  the value of the float. An \<open>int\<close> operand is converted to a float before the float
  operation; dividing by the float zero raises \<open>ZeroDivisionError\<close>.
\<close>

definition calculate_doubao_size :: "rat \<Rightarrow> int \<Rightarrow> int \<Rightarrow> (int \<times> int) option" where
  "calculate_doubao_size DOUBAN_ASPECT_RATIO img_width img_height =
     (let wm_width = py_int_of_float (fl (fl (of_int img_width) * DOUBAO_SIZE_RATIO))
      in if DOUBAN_ASPECT_RATIO = 0 then None
         else (let wm_height = py_int_of_float (fl (fl (of_int wm_width) / DOUBAN_ASPECT_RATIO))
               in Some (wm_width, wm_height)))"

definition calculate_doubao_margin :: "int \<Rightarrow> int \<Rightarrow> int \<times> int" where
  "calculate_doubao_margin img_width img_height =
     (let margin_x = py_int_of_float (fl (fl (of_int img_width) * DOUBAO_MARGIN_RATIO));
          margin_y = py_int_of_float (fl (fl (of_int img_height) * DOUBAO_MARGIN_RATIO))
      in (margin_x, margin_y))"

definition calculate_doubao_position :: "int \<Rightarrow> int \<Rightarrow> int \<Rightarrow> int \<Rightarrow> int \<times> int" where
  "calculate_doubao_position img_width img_height wm_width wm_height =
     (let margin_right = py_int_of_float (fl (fl (of_int img_width) * DOUBAO_MARGIN_RATIO));
          margin_bottom = py_int_of_float (fl (fl (of_int img_height) * DOUBAO_MARGIN_RATIO));
          x = img_width - margin_right - wm_width;
          y = img_height - margin_bottom - wm_height
      in (x, y))"

subsection \<open>\<open>apply_doubao_watermark\<close>\<close>

definition apply_doubao_watermark ::
  "pillow \<Rightarrow> rat \<Rightarrow> heap \<Rightarrow> ref \<Rightarrow> ref option \<Rightarrow> rat
     \<Rightarrow> (exn + ref option) \<times> log list \<times> heap" where
  "apply_doubao_watermark P DOUBAN_ASPECT_RATIO h img watermark opacity =
     (case watermark of
        None \<Rightarrow> (Inr None, [Error_watermark_none], h)
      | Some watermark \<Rightarrow>
     (case check_image_safety (h ! img) of
        ((False, error_msg), lg) \<Rightarrow> (Inr None, lg @ [Error_safety_check error_msg], h)
      | ((True, _), lg) \<Rightarrow>
          (let (result, h) = img_copy h img;
               (result, h) = (if mode (h ! result) \<noteq> RGBA then img_convert h result RGBA
                              else (result, h))
           in (case calculate_doubao_size DOUBAN_ASPECT_RATIO
                       (width (h ! img)) (height (h ! img)) of
                 None \<Rightarrow> (Inl ZeroDivisionError, lg, h)
               | Some (wm_width, wm_height) \<Rightarrow>
                (case img_resize P h watermark (wm_width, wm_height) of
                   None \<Rightarrow> (Inl Pillow_error, lg, h)
                 | Some (resized_watermark, h) \<Rightarrow>
                     (let (resized_watermark, h) =
                            (if mode (h ! resized_watermark) \<noteq> RGBA
                             then img_convert h resized_watermark RGBA
                             else (resized_watermark, h));
                          (resized_watermark, h) = apply_opacity h resized_watermark opacity;
                          (x, y) = calculate_doubao_position
                                     (width (h ! img)) (height (h ! img)) wm_width wm_height
                      in (case img_paste P h result resized_watermark (x, y) resized_watermark of
                            None \<Rightarrow> (Inl Pillow_error, lg, h)
                          | Some h \<Rightarrow>
                              (let (r, h) = img_convert h result RGB
                               in (Inr (Some r), lg, h)))))))))"

subsection \<open>The two functions as functions of the contents of their arguments\<close>

text \<open>
  What a call returns or raises and what it logs, with the image returned in place of the
  reference to it.
\<close>

definition observe :: "(exn + ref option) \<times> log list \<times> heap \<Rightarrow> (exn + image option) \<times> log list" where
  "observe res = (case res of (r, lg, h) \<Rightarrow> (map_sum id (map_option (nth h)) r, lg))"

text \<open>
  The groups of statements that the two functions have in common, as state transformers
  of their own: the copy of the source in mode RGBA; the watermark resized, converted and
  made translucent; the paste and the final conversion. The proofs go through them
  (lemmas \<open>apply_gemini_watermark_fragments\<close> and \<open>apply_doubao_watermark_fragments\<close>).
\<close>

definition copy_as_rgba :: "heap \<Rightarrow> ref \<Rightarrow> ref \<times> heap" where
  "copy_as_rgba h img =
     (let (result, h) = img_copy h img
      in if mode (h ! result) \<noteq> RGBA then img_convert h result RGBA else (result, h))"

definition prepare_watermark ::
  "pillow \<Rightarrow> heap \<Rightarrow> ref \<Rightarrow> int \<times> int \<Rightarrow> rat \<Rightarrow> (ref \<times> heap) option" where
  "prepare_watermark P h watermark sz opacity =
     (case img_resize P h watermark sz of
        None \<Rightarrow> None
      | Some (resized_watermark, h) \<Rightarrow>
          (let (resized_watermark, h) =
                 (if mode (h ! resized_watermark) \<noteq> RGBA
                  then img_convert h resized_watermark RGBA
                  else (resized_watermark, h))
           in Some (apply_opacity h resized_watermark opacity)))"

definition paste_and_flatten ::
  "pillow \<Rightarrow> heap \<Rightarrow> ref \<Rightarrow> ref \<Rightarrow> int \<times> int \<Rightarrow> (ref \<times> heap) option" where
  "paste_and_flatten P h result resized_watermark pos =
     (case img_paste P h result resized_watermark pos resized_watermark of
        None \<Rightarrow> None
      | Some h \<Rightarrow> Some (img_convert h result RGB))"

text \<open>
  What each function returns, raises and logs, computed from the contents of the source
  and of the watermark alone (lemmas \<open>apply_gemini_watermark_refines\<close> and
  \<open>apply_doubao_watermark_refines\<close>).
\<close>

definition gemini_value :: "pillow \<Rightarrow> image \<Rightarrow> image \<Rightarrow> rat \<Rightarrow> (exn + image option) \<times> log list" where
  "gemini_value P source wm opacity =
     (case check_image_safety source of
        ((False, error_msg), lg) \<Rightarrow> (Inr None, lg @ [Error_safety_check error_msg])
      | ((True, _), lg) \<Rightarrow>
          (case calculate_gemini_position (width (convert_image RGBA source))
                  (height (convert_image RGBA source)) wm of (x, y) \<Rightarrow>
             if x < 0 \<or> y < 0
             then (Inr (Some (convert_image RGB source)), lg @ [Warning_skip_watermark])
             else (case resize_lanczos P wm (width wm, height wm) of
                     None \<Rightarrow> (Inl Pillow_error, lg)
                   | Some resized \<Rightarrow>
                       (case paste_masked P (convert_image RGBA source)
                               (with_opacity (convert_image RGBA resized) opacity) (x, y)
                               (with_opacity (convert_image RGBA resized) opacity) of
                          None \<Rightarrow> (Inl Pillow_error, lg)
                        | Some pasted \<Rightarrow> (Inr (Some (convert_image RGB pasted)), lg)))))"

definition doubao_value ::
  "pillow \<Rightarrow> rat \<Rightarrow> image \<Rightarrow> image option \<Rightarrow> rat \<Rightarrow> (exn + image option) \<times> log list" where
  "doubao_value P DOUBAN_ASPECT_RATIO source watermark opacity =
     (case watermark of
        None \<Rightarrow> (Inr None, [Error_watermark_none])
      | Some wm \<Rightarrow>
     (case check_image_safety source of
        ((False, error_msg), lg) \<Rightarrow> (Inr None, lg @ [Error_safety_check error_msg])
      | ((True, _), lg) \<Rightarrow>
          (case calculate_doubao_size DOUBAN_ASPECT_RATIO (width source) (height source) of
             None \<Rightarrow> (Inl ZeroDivisionError, lg)
           | Some (wm_width, wm_height) \<Rightarrow>
               (case resize_lanczos P wm (wm_width, wm_height) of
                  None \<Rightarrow> (Inl Pillow_error, lg)
                | Some resized \<Rightarrow>
                    (case paste_masked P (convert_image RGBA source)
                            (with_opacity (convert_image RGBA resized) opacity)
                            (calculate_doubao_position (width source) (height source)
                               wm_width wm_height)
                            (with_opacity (convert_image RGBA resized) opacity) of
                       None \<Rightarrow> (Inl Pillow_error, lg)
                     | Some pasted \<Rightarrow> (Inr (Some (convert_image RGB pasted)), lg))))))"

subsection \<open>Images and Pillow answers in the examples\<close>

text \<open>
  The examples run the two functions on uniform images with opacity 0. On these runs
  Pillow's answers are simple: a uniform image resized is the uniform image of the new
  size, and a paste through a fully transparent mask leaves the target as it is;
  \<open>example_pillow\<close> gives these answers.
\<close>

definition example_pillow :: pillow where
  "example_pillow =
     \<lparr>resize_lanczos = (\<lambda>img (w, h).
          if w < 1 \<or> h < 1 then None
          else Some \<lparr>mode = mode img, width = w, height = h,
                      pixels = replicate (nat (w * h)) (hd (pixels img))\<rparr>),
       paste_masked = (\<lambda>dst src pos msk. Some dst)\<rparr>"

definition example_source :: image where
  "example_source = \<lparr>mode = RGBA, width = 1, height = 1, pixels = [[1, 2, 3, 4]]\<rparr>"

definition example_watermark :: image where
  "example_watermark = \<lparr>mode = RGBA, width = 1, height = 1, pixels = [[255, 255, 255, 255]]\<rparr>"

definition example_wide :: image where
  "example_wide = \<lparr>mode = RGB, width = 100, height = 1, pixels = replicate 100 [10, 20, 30]\<rparr>"

section \<open>File utilities (utils/file\_utils.py)\<close>

text \<open>Python \<open>bytes\<close> are lists of 8-bit characters.\<close>

type_synonym bytes = "char list"

subsection \<open>The table \<open>MAGIC_BYTES\<close>\<close>

definition MAGIC_gif :: "bytes list" where
  "MAGIC_gif = [''GIF87a'', ''GIF89a'']"

definition MAGIC_png :: bytes where
  "MAGIC_png = [CHR 0x89, CHR ''P'', CHR ''N'', CHR ''G'', CHR 0x0D, CHR 0x0A, CHR 0x1A, CHR 0x0A]"

definition MAGIC_jpeg :: bytes where
  "MAGIC_jpeg = [CHR 0xFF, CHR 0xD8, CHR 0xFF]"

definition MAGIC_webp_riff :: bytes where
  "MAGIC_webp_riff = ''RIFF''"

definition MAGIC_webp_tag :: bytes where
  "MAGIC_webp_tag = ''WEBP''"

definition MAGIC_bmp :: bytes where
  "MAGIC_bmp = ''BM''"

subsection \<open>\<open>detect_image_format_by_magic\<close>\<close>

text \<open>
  The slices \<open>data[:n]\<close> and \<open>data[8:12]\<close> are \<open>take n data\<close> and
  \<open>take 4 (drop 8 data)\<close>; the result \<open>None\<close> of the source is \<open>None\<close>.
\<close>

definition detect_image_format_by_magic :: "bytes \<Rightarrow> string option" where
  "detect_image_format_by_magic data =
     (if length data < 12 then None
      else if take 6 data \<in> set MAGIC_gif then Some ''.gif''
      else if take 8 data = MAGIC_png then Some ''.png''
      else if take 3 data = MAGIC_jpeg then Some ''.jpg''
      else if take 4 data = MAGIC_webp_riff \<and> take 4 (drop 8 data) = MAGIC_webp_tag
        then Some ''.webp''
      else if take 2 data = MAGIC_bmp then Some ''.bmp''
      else None)"

section \<open>Network utilities (utils/network\_utils.py)\<close>

subsection \<open>The standard library, as parameters\<close>

text \<open>
  \<open>urllib.parse.urlparse\<close>, \<open>ipaddress.ip_address\<close> and \<open>int\<close> are library code. The model
  takes them as parameters: \<open>None\<close> stands for the \<open>ValueError\<close> they raise. Of the address
  object that \<open>ip_address\<close> returns, the source reads the three properties of the record
  \<open>ip_obj\<close>.
\<close>

record parsed_url =
  url_scheme :: string
  url_hostname :: "string option"

record ip_obj =
  is_private :: bool
  is_loopback :: bool
  is_link_local :: bool

record pylib =
  urlparse :: "string \<Rightarrow> parsed_url option"
  ip_address :: "string \<Rightarrow> ip_obj option"
  py_int :: "string \<Rightarrow> int option"

subsection \<open>The network, as parameters\<close>

text \<open>
  \<open>loop.getaddrinfo\<close> answers with a list of addresses, raises \<open>socket.gaierror\<close>, or raises
  something else. The GET request of \<open>download_image\<close> is issued with the URL and the pair
  (host name, pinned address) that the fixed resolver is built from; it raises a timeout,
  raises another exception, or answers with a status and a body that arrives as chunks
  (\<open>iter_chunked (8192)\<close>) and ends normally or with an exception.
\<close>

datatype family = AF_INET | AF_INET6

datatype gai_result = Addrs "string list" | Gaierror | Gai_other_error

datatype stream_end = Eof | Stream_timeout | Stream_error

datatype http_result =
    Get_timeout
  | Get_error
  | Response int "bytes list" stream_end

record network =
  getaddrinfo :: "string \<Rightarrow> family \<Rightarrow> gai_result"
  http_get :: "string \<Rightarrow> string \<Rightarrow> string \<Rightarrow> http_result"

text \<open>What reaches the network, in order.\<close>

datatype net_event =
    Resolve string family
  | Get string string string     \<comment> \<open>url, host name, pinned address\<close>

subsection \<open>\<open>DANGEROUS_PATTERNS\<close>\<close>

definition DANGEROUS_PATTERNS :: "string list" where
  "DANGEROUS_PATTERNS =
     [''localhost'', ''127.0.0.1'', ''0.0.0.0'', ''::1'', ''169.254.'', ''metadata.'',
      ''.internal'', ''.local'', ''.localdomain'', ''10.'',
      ''172.16.'', ''172.17.'', ''172.18.'', ''172.19.'', ''172.20.'', ''172.21.'',
      ''172.22.'', ''172.23.'', ''172.24.'', ''172.25.'', ''172.26.'', ''172.27.'',
      ''172.28.'', ''172.29.'', ''172.30.'', ''172.31.'', ''192.168.'']"

subsection \<open>\<open>_is_private_ip\<close>, \<open>_is_ip_format\<close>\<close>

definition is_private_ip :: "pylib \<Rightarrow> string \<Rightarrow> bool" where
  "is_private_ip L ip_str =
     (case ip_address L ip_str of
        Some ip \<Rightarrow> is_private ip \<or> is_loopback ip \<or> is_link_local ip
      | None \<Rightarrow> False)"

text \<open>
  In the second \<open>try\<close>, \<open>ipaddress.ip_address (ip_int)\<close> on an integer between 0 and
  \<open>0xFFFFFFFF\<close> always succeeds (it is the IPv4 address with that value), and its result is
  dropped.
\<close>

definition is_ip_format :: "pylib \<Rightarrow> string \<Rightarrow> bool" where
  "is_ip_format L hostname =
     (case ip_address L hostname of
        Some _ \<Rightarrow> True
      | None \<Rightarrow>
          (case py_int L hostname of
             Some ip_int \<Rightarrow> 0 \<le> ip_int \<and> ip_int \<le> 0xFFFFFFFF
           | None \<Rightarrow> False))"

subsection \<open>\<open>_resolve_hostname\<close>\<close>

definition resolve_hostname :: "network \<Rightarrow> string \<Rightarrow> string option \<times> net_event list" where
  "resolve_hostname N hostname =
     (case getaddrinfo N hostname AF_INET of
        Gai_other_error \<Rightarrow> (None, [Resolve hostname AF_INET])
      | Addrs (a # _) \<Rightarrow> (Some a, [Resolve hostname AF_INET])
      | _ \<Rightarrow>
          (case getaddrinfo N hostname AF_INET6 of
             Addrs (a # _) \<Rightarrow> (Some a, [Resolve hostname AF_INET, Resolve hostname AF_INET6])
           | _ \<Rightarrow> (None, [Resolve hostname AF_INET, Resolve hostname AF_INET6])))"

subsection \<open>\<open>_is_safe_url_with_ip\<close>\<close>

text \<open>\<open>hostname.endswith (s)\<close> is \<open>suffix s hostname\<close>, \<open>hostname.startswith (s)\<close> is
  \<open>prefix s hostname\<close>, \<open>hostname[1:-1]\<close> is \<open>butlast (tl hostname)\<close>.\<close>

definition matches_pattern :: "string \<Rightarrow> string \<Rightarrow> bool" where
  "matches_pattern hostname pattern =
     (let clean_pattern = (if prefix ''.'' pattern then tl pattern else pattern)
      in hostname = pattern \<or> suffix (''.'' @ clean_pattern) hostname \<or> prefix pattern hostname)"

definition is_safe_url_with_ip ::
  "pylib \<Rightarrow> network \<Rightarrow> string \<Rightarrow> (string \<times> string) option \<times> net_event list" where
  "is_safe_url_with_ip L N url =
     (case urlparse L url of
        None \<Rightarrow> (None, [])
      | Some parsed \<Rightarrow>
          if url_scheme parsed \<notin> {''http'', ''https''} then (None, [])
          else (case url_hostname parsed of
             None \<Rightarrow> (None, [])
           | Some hostname \<Rightarrow>
               if hostname = [] then (None, [])
               else if is_ip_format L hostname then
                 (if is_private_ip L hostname then (None, []) else (Some (hostname, hostname), []))
               else if prefix ''['' hostname \<and> suffix '']'' hostname
                       \<and> is_ip_format L (butlast (tl hostname)) then
                 (if is_private_ip L (butlast (tl hostname)) then (None, [])
                  else (Some (butlast (tl hostname), hostname), []))
               else if list_ex (matches_pattern hostname) DANGEROUS_PATTERNS then (None, [])
               else
                 (case resolve_hostname N hostname of
                    (None, evs) \<Rightarrow> (None, evs)
                  | (Some resolved_ip, evs) \<Rightarrow>
                      if resolved_ip = [] then (None, evs)
                      else if is_private_ip L resolved_ip then (None, evs)
                      else (Some (resolved_ip, hostname), evs))))"

subsection \<open>\<open>download_image\<close>\<close>

text \<open>
  The loop over the chunks of the body. Besides the result it returns the length of the
  buffer after every \<open>buffer.extend (chunk)\<close>, in order.
\<close>

fun read_chunks :: "int \<Rightarrow> bytes \<Rightarrow> bytes list \<Rightarrow> stream_end \<Rightarrow> bytes option \<times> nat list" where
  "read_chunks max_size buffer [] e = ((if e = Eof then Some buffer else None), [])"
| "read_chunks max_size buffer (chunk # rest) e =
     (let buffer' = buffer @ chunk in
      if int (length buffer') > max_size then (None, [length buffer'])
      else (case read_chunks max_size buffer' rest e of
              (r, lens) \<Rightarrow> (r, length buffer' # lens)))"

definition download_image ::
  "pylib \<Rightarrow> network \<Rightarrow> int \<Rightarrow> string \<Rightarrow> bytes option \<times> net_event list" where
  "download_image L N max_size url =
     (case is_safe_url_with_ip L N url of
        (None, evs) \<Rightarrow> (None, evs)
      | (Some (safe_ip, hostname), evs) \<Rightarrow>
          (case http_get N url hostname safe_ip of
             Response status chunks e \<Rightarrow>
               if status \<noteq> 200 then (None, evs @ [Get url hostname safe_ip])
               else (fst (read_chunks max_size [] chunks e), evs @ [Get url hostname safe_ip])
           | _ \<Rightarrow> (None, evs @ [Get url hostname safe_ip])))"

subsection \<open>Answers of the library and of the network in the examples\<close>

text \<open>
  The examples below run the functions on concrete URLs. \<open>example_lib\<close> lists what CPython
  answers on the strings these runs ask about (\<open>ipaddress.ip_address ("2130706433")\<close> raises
  \<open>ValueError\<close>, \<open>int ("2130706433")\<close> is 2130706433, 127.0.0.1 is loopback and private,
  93.184.216.34 is public); outside these strings nothing is asked. \<open>example_net\<close> is a
  network in which the name notlocalhost resolves to a public address and every GET is
  answered with status 200 and a three-byte body.
\<close>

definition example_lib :: pylib where
  "example_lib =
     \<lparr>urlparse = (\<lambda>url.
          if url = ''ftp://example.com/a.png''
            then Some \<lparr>url_scheme = ''ftp'', url_hostname = Some ''example.com''\<rparr>
          else if url = ''http://127.0.0.1/a.png''
            then Some \<lparr>url_scheme = ''http'', url_hostname = Some ''127.0.0.1''\<rparr>
          else if url = ''https://db.internal/a.png''
            then Some \<lparr>url_scheme = ''https'', url_hostname = Some ''db.internal''\<rparr>
          else if url = ''http://notlocalhost/a.png''
            then Some \<lparr>url_scheme = ''http'', url_hostname = Some ''notlocalhost''\<rparr>
          else if url = ''http://2130706433/a.png''
            then Some \<lparr>url_scheme = ''http'', url_hostname = Some ''2130706433''\<rparr>
          else None),
       ip_address = (\<lambda>s.
          if s = ''127.0.0.1''
            then Some \<lparr>is_private = True, is_loopback = True, is_link_local = False\<rparr>
          else if s = ''93.184.216.34''
            then Some \<lparr>is_private = False, is_loopback = False, is_link_local = False\<rparr>
          else None),
       py_int = (\<lambda>s. if s = ''2130706433'' then Some 2130706433 else None)\<rparr>"

definition example_net :: network where
  "example_net =
     \<lparr>getaddrinfo = (\<lambda>host fam.
          if host = ''notlocalhost'' \<and> fam = AF_INET then Addrs [''93.184.216.34''] else Gaierror),
       http_get = (\<lambda>url host ip. Response 200 [''img''] Eof)\<rparr>"

section \<open>Properties\<close>

subsection \<open>The pixel-count gate\<close>

text \<open>
  C4. For every width and height, \<open>check_image_safety\<close> rejects exactly when
  width * height > 10000 * 10000 and accepts otherwise; an accepted image with
  width * height > 5000 * 5000 is accepted with one warning in the log and nothing else,
  and below that threshold nothing is logged. In particular (10001, 10000) is rejected,
  (10000, 10000) is accepted, and (5001, 5000) is accepted with a warning.
\<close>

theorem check_image_safety_gate:
  "(fst (fst (check_image_safety img)) = (\<not> width img * height img > 10000 * 10000))
   \<and> (width img * height img > 10000 * 10000 \<longrightarrow>
        check_image_safety img =
          ((False, Too_large (width img * height img) (10000 * 10000)), []))
   \<and> (\<not> width img * height img > 10000 * 10000 \<and> width img * height img > 5000 * 5000 \<longrightarrow>
        check_image_safety img =
          ((True, No_msg), [Warning_large_image (width img * height img) (width img) (height img)]))
   \<and> (\<not> width img * height img > 5000 * 5000 \<longrightarrow>
        check_image_safety img = ((True, No_msg), []))"
  by (simp add: check_image_safety_def MAX_IMAGE_PIXELS_def WARNING_PIXELS_def Let_def)

theorem check_image_safety_gate_witness:
  "check_image_safety \<lparr>mode = RGB, width = 10001, height = 10000, pixels = []\<rparr>
     = ((False, Too_large 100010000 100000000), [])
   \<and> check_image_safety \<lparr>mode = RGB, width = 10000, height = 10000, pixels = []\<rparr>
     = ((True, No_msg), [Warning_large_image 100000000 10000 10000])
   \<and> check_image_safety \<lparr>mode = RGB, width = 5001, height = 5000, pixels = []\<rparr>
     = ((True, No_msg), [Warning_large_image 25005000 5001 5000])
   \<and> check_image_safety \<lparr>mode = RGB, width = 5000, height = 5000, pixels = []\<rparr>
     = ((True, No_msg), [])"
  using check_image_safety_gate [of "\<lparr>mode = RGB, width = 10001, height = 10000, pixels = []\<rparr>"]
        check_image_safety_gate [of "\<lparr>mode = RGB, width = 10000, height = 10000, pixels = []\<rparr>"]
        check_image_safety_gate [of "\<lparr>mode = RGB, width = 5001, height = 5000, pixels = []\<rparr>"]
        check_image_safety_gate [of "\<lparr>mode = RGB, width = 5000, height = 5000, pixels = []\<rparr>"]
  by simp

subsection \<open>Corner-anchored position (gemini)\<close>

text \<open>
  C7. For every image width W and height H and every watermark of size wmW x wmH, the
  gemini margin is 64 if both W > 1024 and H > 1024 and 32 otherwise, and the paste
  position is (W - margin - wmW, H - margin - wmH).
\<close>

theorem calculate_gemini_position_formula:
  "calculate_gemini_position W H wm =
     (if W > 1024 \<and> H > 1024
      then (W - 64 - width wm, H - 64 - height wm)
      else (W - 32 - width wm, H - 32 - height wm))"
  by (simp add: calculate_gemini_position_def LARGE_IMAGE_THRESHOLD_def
        LARGE_IMAGE_MARGIN_def SMALL_IMAGE_MARGIN_def Let_def)

theorem calculate_gemini_position_scenario:
  "calculate_gemini_position 2000 1500 \<lparr>mode = RGBA, width = 200, height = 100, pixels = []\<rparr>
     = (1736, 1336)
   \<and> calculate_gemini_position 1024 1500 \<lparr>mode = RGBA, width = 200, height = 100, pixels = []\<rparr>
     = (792, 1368)"
  using calculate_gemini_position_formula
          [of 2000 1500 "\<lparr>mode = RGBA, width = 200, height = 100, pixels = []\<rparr>"]
        calculate_gemini_position_formula
          [of 1024 1500 "\<lparr>mode = RGBA, width = 200, height = 100, pixels = []\<rparr>"]
  by simp

subsection \<open>Format sniffing\<close>

lemmas magic_defs = MAGIC_gif_def MAGIC_png_def MAGIC_jpeg_def MAGIC_webp_riff_def
  MAGIC_webp_tag_def MAGIC_bmp_def

lemma detect_first_twelve:
  "detect_image_format_by_magic (take 12 data) = detect_image_format_by_magic data"
proof (cases "length data < 12")
  case True
  then show ?thesis by simp
next
  case False
  then have "length (take 12 data) = 12" by simp
  moreover have "take 4 (drop 8 (take 12 data)) = take 4 (drop 8 data)"
    by (simp add: drop_take)
  ultimately show ?thesis using False
    by (simp add: detect_image_format_by_magic_def)
qed

text \<open>
  C5. \<open>detect_image_format_by_magic\<close> is a function of the bytes alone. Every input shorter
  than 12 bytes gives None. Every input of at least 12 bytes that begins with GIF87a or
  GIF89a, with the 8-byte PNG signature, with FF D8 FF, with RIFF, four arbitrary bytes and
  WEBP, or with BM gives the matching format. Two inputs with the same first 12 bytes give
  the same result, so nothing after the signature region is read.
\<close>

theorem detect_image_format_by_magic_spec:
  "(length data < 12 \<longrightarrow> detect_image_format_by_magic data = None)
   \<and> (12 \<le> length (''GIF87a'' @ rest) \<longrightarrow>
        detect_image_format_by_magic (''GIF87a'' @ rest) = Some ''.gif'')
   \<and> (12 \<le> length (''GIF89a'' @ rest) \<longrightarrow>
        detect_image_format_by_magic (''GIF89a'' @ rest) = Some ''.gif'')
   \<and> (12 \<le> length ([CHR 0x89, CHR ''P'', CHR ''N'', CHR ''G'',
                       CHR 0x0D, CHR 0x0A, CHR 0x1A, CHR 0x0A] @ rest) \<longrightarrow>
        detect_image_format_by_magic
          ([CHR 0x89, CHR ''P'', CHR ''N'', CHR ''G'', CHR 0x0D, CHR 0x0A, CHR 0x1A, CHR 0x0A] @ rest)
          = Some ''.png'')
   \<and> (12 \<le> length ([CHR 0xFF, CHR 0xD8, CHR 0xFF] @ rest) \<longrightarrow>
        detect_image_format_by_magic ([CHR 0xFF, CHR 0xD8, CHR 0xFF] @ rest) = Some ''.jpg'')
   \<and> (length sz = 4 \<longrightarrow>
        detect_image_format_by_magic (''RIFF'' @ sz @ ''WEBP'' @ rest) = Some ''.webp'')
   \<and> (12 \<le> length (''BM'' @ rest) \<longrightarrow>
        detect_image_format_by_magic (''BM'' @ rest) = Some ''.bmp'')
   \<and> (take 12 data = take 12 data' \<longrightarrow>
        detect_image_format_by_magic data = detect_image_format_by_magic data')"
proof -
  have short: "length data < 12 \<longrightarrow> detect_image_format_by_magic data = None"
    by (simp add: detect_image_format_by_magic_def)
  have gif87: "12 \<le> length (''GIF87a'' @ rest) \<longrightarrow>
        detect_image_format_by_magic (''GIF87a'' @ rest) = Some ''.gif''"
    by (simp add: detect_image_format_by_magic_def magic_defs)
  have gif89: "12 \<le> length (''GIF89a'' @ rest) \<longrightarrow>
        detect_image_format_by_magic (''GIF89a'' @ rest) = Some ''.gif''"
    by (simp add: detect_image_format_by_magic_def magic_defs)
  have png: "12 \<le> length ([CHR 0x89, CHR ''P'', CHR ''N'', CHR ''G'',
                       CHR 0x0D, CHR 0x0A, CHR 0x1A, CHR 0x0A] @ rest) \<longrightarrow>
        detect_image_format_by_magic
          ([CHR 0x89, CHR ''P'', CHR ''N'', CHR ''G'', CHR 0x0D, CHR 0x0A, CHR 0x1A, CHR 0x0A] @ rest)
          = Some ''.png''"
    by (simp add: detect_image_format_by_magic_def magic_defs)
  have jpeg: "12 \<le> length ([CHR 0xFF, CHR 0xD8, CHR 0xFF] @ rest) \<longrightarrow>
        detect_image_format_by_magic ([CHR 0xFF, CHR 0xD8, CHR 0xFF] @ rest) = Some ''.jpg''"
    by (simp add: detect_image_format_by_magic_def magic_defs)
  have webp: "length sz = 4 \<longrightarrow>
        detect_image_format_by_magic (''RIFF'' @ sz @ ''WEBP'' @ rest) = Some ''.webp''"
    by (simp add: detect_image_format_by_magic_def magic_defs)
  have bmp: "12 \<le> length (''BM'' @ rest) \<longrightarrow>
        detect_image_format_by_magic (''BM'' @ rest) = Some ''.bmp''"
    by (simp add: detect_image_format_by_magic_def magic_defs)
  have tail: "take 12 data = take 12 data' \<longrightarrow>
        detect_image_format_by_magic data = detect_image_format_by_magic data'"
    by (metis detect_first_twelve)
  from short gif87 gif89 png jpeg webp bmp tail show ?thesis by blast
qed

theorem detect_image_format_by_magic_examples:
  "detect_image_format_by_magic ''GIF89a01234'' = None
   \<and> detect_image_format_by_magic (''GIF87a'' @ ''012345'') = Some ''.gif''
   \<and> detect_image_format_by_magic (''GIF89a'' @ ''012345'') = Some ''.gif''
   \<and> detect_image_format_by_magic
        ([CHR 0x89, CHR ''P'', CHR ''N'', CHR ''G'', CHR 0x0D, CHR 0x0A, CHR 0x1A, CHR 0x0A] @ ''012345'')
        = Some ''.png''
   \<and> detect_image_format_by_magic ([CHR 0xFF, CHR 0xD8, CHR 0xFF] @ ''0123456789'') = Some ''.jpg''
   \<and> detect_image_format_by_magic (''RIFF'' @ ''0123'' @ ''WEBP'' @ ''012345'') = Some ''.webp''
   \<and> detect_image_format_by_magic (''BM'' @ ''0123456789'') = Some ''.bmp''
   \<and> detect_image_format_by_magic ''BM0123456789 and a tail''
       = detect_image_format_by_magic ''BM0123456789, another tail''"
proof -
  note spec = detect_image_format_by_magic_spec
  have "detect_image_format_by_magic ''GIF89a01234'' = None"
    using spec [of "''GIF89a01234''"] by simp
  moreover have "detect_image_format_by_magic (''GIF87a'' @ ''012345'') = Some ''.gif''"
    and "detect_image_format_by_magic (''GIF89a'' @ ''012345'') = Some ''.gif''"
    and "detect_image_format_by_magic
        ([CHR 0x89, CHR ''P'', CHR ''N'', CHR ''G'', CHR 0x0D, CHR 0x0A, CHR 0x1A, CHR 0x0A] @ ''012345'')
        = Some ''.png''"
    using spec [of _ "''012345''"] by simp_all
  moreover have "detect_image_format_by_magic ([CHR 0xFF, CHR 0xD8, CHR 0xFF] @ ''0123456789'') = Some ''.jpg''"
    and "detect_image_format_by_magic (''BM'' @ ''0123456789'') = Some ''.bmp''"
    using spec [of _ "''0123456789''"] by simp_all
  moreover have "detect_image_format_by_magic (''RIFF'' @ ''0123'' @ ''WEBP'' @ ''012345'') = Some ''.webp''"
    using spec [of _ "''012345''" "''0123''"] by simp
  moreover have "detect_image_format_by_magic ''BM0123456789 and a tail''
       = detect_image_format_by_magic ''BM0123456789, another tail''"
    using spec [of "''BM0123456789 and a tail''" _ _ "''BM0123456789, another tail''"] by simp
  ultimately show ?thesis by blast
qed

subsection \<open>URL safety check\<close>

lemma suffix_Cons_last: "suffix (c # s) h \<Longrightarrow> last h = last (c # s)"
  by (auto simp: suffix_def)

lemma prefix_Cons_hd: "prefix (c # s) h \<Longrightarrow> hd h = c"
  by (auto simp: prefix_def)

lemma bracketed_no_pattern:
  assumes "prefix ''['' h" "suffix '']'' h"
  shows "\<not> list_ex (matches_pattern h) DANGEROUS_PATTERNS"
proof -
  from assms have hd: "hd h = CHR ''[''" by (auto simp: prefix_def)
  from assms have l: "last h = CHR '']''" by (auto simp: suffix_def)
  show ?thesis
    using hd l
    by (auto simp: DANGEROUS_PATTERNS_def matches_pattern_def
             dest!: suffix_Cons_last prefix_Cons_hd)
qed

subsection \<open>Streaming cap\<close>

lemma read_chunks_Cons:
  "read_chunks max_size buffer (c # cs) e =
     (if int (length (buffer @ c)) > max_size then (None, [length (buffer @ c)])
      else (fst (read_chunks max_size (buffer @ c) cs e),
            length (buffer @ c) # snd (read_chunks max_size (buffer @ c) cs e)))"
  by (simp add: Let_def split: prod.splits)

lemma read_chunks_overflow:
  "int (length buffer + length (concat chunks)) > max_size \<Longrightarrow> int (length buffer) \<le> max_size
   \<Longrightarrow> fst (read_chunks max_size buffer chunks e) = None"
proof (induction chunks arbitrary: buffer)
  case Nil
  then show ?case by simp
next
  case (Cons c cs)
  show ?case
  proof (cases "int (length (buffer @ c)) > max_size")
    case True
    then show ?thesis by (simp only: read_chunks_Cons if_True fst_conv)
  next
    case False
    moreover from Cons.prems have "int (length (buffer @ c) + length (concat cs)) > max_size"
      by simp
    ultimately have "fst (read_chunks max_size (buffer @ c) cs e) = None"
      using Cons.IH [of "buffer @ c"] by simp
    with False show ?thesis by (simp only: read_chunks_Cons if_False fst_conv)
  qed
qed

lemma read_chunks_success:
  "fst (read_chunks max_size buffer chunks e) = Some b \<Longrightarrow>
     b = buffer @ concat chunks \<and> e = Eof
     \<and> (\<forall>n\<in>set (snd (read_chunks max_size buffer chunks e)). int n \<le> max_size)"
proof (induction chunks arbitrary: buffer)
  case Nil
  then show ?case by (simp split: if_splits)
next
  case (Cons c cs)
  show ?case
  proof (cases "int (length (buffer @ c)) > max_size")
    case True
    with Cons.prems show ?thesis by (simp add: read_chunks_Cons del: read_chunks.simps)
  next
    case False
    with Cons.prems have "fst (read_chunks max_size (buffer @ c) cs e) = Some b"
      by (simp add: read_chunks_Cons del: read_chunks.simps)
    from Cons.IH [OF this] False show ?thesis
      by (simp add: read_chunks_Cons del: read_chunks.simps)
  qed
qed

lemma read_chunks_length:
  "length (snd (read_chunks max_size buffer chunks e)) \<le> length chunks"
proof (induction chunks arbitrary: buffer)
  case Nil
  then show ?case by simp
next
  case (Cons c cs)
  from Cons.IH [of "buffer @ c"] show ?case
    by (simp add: read_chunks_Cons del: read_chunks.simps)
qed

lemma read_chunks_lens:
  "i < length (snd (read_chunks max_size buffer chunks e)) \<Longrightarrow>
     snd (read_chunks max_size buffer chunks e) ! i
       = length buffer + length (concat (take (Suc i) chunks))
     \<and> (Suc i < length (snd (read_chunks max_size buffer chunks e)) \<longrightarrow>
          int (snd (read_chunks max_size buffer chunks e) ! i) \<le> max_size)"
proof (induction chunks arbitrary: buffer i)
  case Nil
  then show ?case by simp
next
  case (Cons c cs)
  show ?case
  proof (cases "int (length (buffer @ c)) > max_size")
    case True
    with Cons.prems show ?thesis by (simp add: read_chunks_Cons del: read_chunks.simps)
  next
    case False
    show ?thesis
    proof (cases i)
      case 0
      with False show ?thesis by (simp add: read_chunks_Cons del: read_chunks.simps)
    next
      case (Suc j)
      with False Cons.prems have "j < length (snd (read_chunks max_size (buffer @ c) cs e))"
        by (simp add: read_chunks_Cons del: read_chunks.simps)
      from Cons.IH [OF this] False Suc show ?thesis
        by (auto simp add: read_chunks_Cons add.assoc simp del: read_chunks.simps)
    qed
  qed
qed

lemma read_chunks_bound:
  "\<forall>c\<in>set chunks. length c \<le> 8192 \<Longrightarrow> int (length buffer) \<le> max_size \<Longrightarrow>
     \<forall>n\<in>set (snd (read_chunks max_size buffer chunks e)). int n \<le> max_size + 8192"
proof (induction chunks arbitrary: buffer)
  case Nil
  then show ?case by simp
next
  case (Cons c cs)
  show ?case
  proof (cases "int (length (buffer @ c)) > max_size")
    case True
    with Cons.prems show ?thesis by (simp add: read_chunks_Cons del: read_chunks.simps)
  next
    case False
    then have "int (length (buffer @ c)) \<le> max_size" by simp
    from Cons.IH [OF _ this] Cons.prems False show ?thesis
      by (simp add: read_chunks_Cons del: read_chunks.simps)
  qed
qed

lemma read_chunks_lens_empty:
  "i < length (snd (read_chunks max_size [] chunks e)) \<Longrightarrow>
     snd (read_chunks max_size [] chunks e) ! i = length (concat (take (Suc i) chunks))
     \<and> (Suc i < length (snd (read_chunks max_size [] chunks e)) \<longrightarrow>
          int (snd (read_chunks max_size [] chunks e) ! i) \<le> max_size)"
  using read_chunks_lens [of i max_size "[]" chunks e] by auto

text \<open>
  C2. Let the size limit be non-negative. A body whose total length is greater than
  \<open>max_size\<close> makes the chunk loop, and with it \<open>download_image\<close>, return None: no bytes
  reach the caller. The buffer length after the i-th \<open>extend\<close> is the total length of the
  first i chunks, and every buffer length but the last one recorded is within \<open>max_size\<close>:
  the check runs after every chunk and the loop stops at the first chunk that crosses the
  limit. When no chunk is longer than 8192 bytes, the buffer never holds more than
  \<open>max_size + 8192\<close> bytes.
\<close>

theorem download_image_size_cap:
  assumes "0 \<le> max_size"
  shows
  "(int (length (concat chunks)) > max_size \<longrightarrow> fst (read_chunks max_size [] chunks e) = None)
   \<and> (is_safe_url_with_ip L N url = (Some (safe_ip, hostname), evs)
        \<and> http_get N url hostname safe_ip = Response status chunks e
        \<and> int (length (concat chunks)) > max_size \<longrightarrow>
        download_image L N max_size url = (None, evs @ [Get url hostname safe_ip]))
   \<and> (\<forall>i < length (snd (read_chunks max_size [] chunks e)).
         snd (read_chunks max_size [] chunks e) ! i = length (concat (take (Suc i) chunks))
         \<and> (Suc i < length (snd (read_chunks max_size [] chunks e)) \<longrightarrow>
              int (snd (read_chunks max_size [] chunks e) ! i) \<le> max_size))
   \<and> ((\<forall>c\<in>set chunks. length c \<le> 8192) \<longrightarrow>
        (\<forall>n\<in>set (snd (read_chunks max_size [] chunks e)). int n \<le> max_size + 8192))"
proof -
  have over: "int (length (concat chunks)) > max_size \<longrightarrow>
      fst (read_chunks max_size [] chunks e) = None"
    using read_chunks_overflow [of max_size "[]" chunks e] assms by simp
  have dl: "is_safe_url_with_ip L N url = (Some (safe_ip, hostname), evs)
        \<and> http_get N url hostname safe_ip = Response status chunks e
        \<and> int (length (concat chunks)) > max_size \<longrightarrow>
        download_image L N max_size url = (None, evs @ [Get url hostname safe_ip])"
    using over by (simp add: download_image_def)
  have lens: "\<forall>i < length (snd (read_chunks max_size [] chunks e)).
         snd (read_chunks max_size [] chunks e) ! i = length (concat (take (Suc i) chunks))
         \<and> (Suc i < length (snd (read_chunks max_size [] chunks e)) \<longrightarrow>
              int (snd (read_chunks max_size [] chunks e) ! i) \<le> max_size)"
    using read_chunks_lens_empty [of _ max_size chunks e] by blast
  have bound: "(\<forall>c\<in>set chunks. length c \<le> 8192) \<longrightarrow>
        (\<forall>n\<in>set (snd (read_chunks max_size [] chunks e)). int n \<le> max_size + 8192)"
    using read_chunks_bound [of chunks "[]" max_size e] assms by simp
  from over dl lens bound show ?thesis by blast
qed

theorem download_image_size_cap_example:
  "read_chunks 10 [] [''12345678'', ''abc'', ''zzzz''] Eof = (None, [8, 11])
   \<and> download_image example_lib example_net 2 ''http://notlocalhost/a.png''
       = (None, [Resolve ''notlocalhost'' AF_INET,
                 Get ''http://notlocalhost/a.png'' ''notlocalhost'' ''93.184.216.34''])"
proof -
  have safe: "is_safe_url_with_ip example_lib example_net ''http://notlocalhost/a.png''
      = (Some (''93.184.216.34'', ''notlocalhost''), [Resolve ''notlocalhost'' AF_INET])"
    by (simp add: is_safe_url_with_ip_def example_lib_def example_net_def is_ip_format_def
          is_private_ip_def DANGEROUS_PATTERNS_def matches_pattern_def resolve_hostname_def
          suffix_to_prefix)
  have get: "http_get example_net ''http://notlocalhost/a.png'' ''notlocalhost'' ''93.184.216.34''
      = Response 200 [''img''] Eof"
    by (simp add: example_net_def)
  have "(2::int) < int (length (concat [''img'']))" by simp
  with safe get
    download_image_size_cap [of 2 "[''img'']" Eof example_lib example_net
       "''http://notlocalhost/a.png''" "''93.184.216.34''" "''notlocalhost''"
       "[Resolve ''notlocalhost'' AF_INET]" 200]
  have "download_image example_lib example_net 2 ''http://notlocalhost/a.png''
       = (None, [Resolve ''notlocalhost'' AF_INET,
                 Get ''http://notlocalhost/a.png'' ''notlocalhost'' ''93.184.216.34''])"
    by simp
  moreover have "read_chunks 10 [] [''12345678'', ''abc'', ''zzzz''] Eof = (None, [8, 11])"
    by simp
  ultimately show ?thesis by simp
qed

text \<open>
  C1, as amended. When the scheme of the URL is not http or https, or the host is a literal
  address that \<open>ipaddress\<close> classifies as private, loopback or link-local, or the host is
  not in IP format and is equal to an entry of \<open>DANGEROUS_PATTERNS\<close>, starts with an entry,
  or ends with a dot followed by the entry (without the entry's own leading dot), then
  \<open>download_image\<close> returns None and nothing reaches the network: no name is resolved and
  no request is sent.
\<close>

theorem download_image_refuses_forbidden:
  assumes "urlparse L url = Some parsed"
    and "url_scheme parsed \<notin> {''http'', ''https''}
         \<or> (\<exists>h. url_hostname parsed = Some h
                \<and> (is_private_ip L h
                    \<or> (\<not> is_ip_format L h
                        \<and> (\<exists>p \<in> set DANGEROUS_PATTERNS.
                              h = p \<or> prefix p h
                              \<or> suffix (''.'' @ (if prefix ''.'' p then tl p else p)) h))))"
  shows "download_image L N max_size url = (None, [])"
proof -
  have "is_safe_url_with_ip L N url = (None, [])"
  proof (cases "url_scheme parsed \<notin> {''http'', ''https''}")
    case True
    with assms(1) show ?thesis by (simp add: is_safe_url_with_ip_def)
  next
    case False
    with assms(2) obtain h where h: "url_hostname parsed = Some h"
      and bad: "is_private_ip L h
                \<or> (\<not> is_ip_format L h
                    \<and> (\<exists>p \<in> set DANGEROUS_PATTERNS.
                          h = p \<or> prefix p h
                          \<or> suffix (''.'' @ (if prefix ''.'' p then tl p else p)) h))"
      by blast
    from bad show ?thesis
    proof
      assume priv: "is_private_ip L h"
      then have "is_ip_format L h"
        by (auto simp: is_private_ip_def is_ip_format_def split: option.splits)
      with priv h assms(1) False show ?thesis by (simp add: is_safe_url_with_ip_def)
    next
      assume m: "\<not> is_ip_format L h
                    \<and> (\<exists>p \<in> set DANGEROUS_PATTERNS.
                          h = p \<or> prefix p h
                          \<or> suffix (''.'' @ (if prefix ''.'' p then tl p else p)) h)"
      then obtain p where "p \<in> set DANGEROUS_PATTERNS" "matches_pattern h p"
        unfolding matches_pattern_def Let_def by blast
      then have ex: "list_ex (matches_pattern h) DANGEROUS_PATTERNS"
        unfolding list_ex_iff by blast
      then have "\<not> (prefix ''['' h \<and> suffix '']'' h)"
        using bracketed_no_pattern [of h] by blast
      with m ex h assms(1) False show ?thesis by (auto simp add: is_safe_url_with_ip_def)
    qed
  qed
  then show ?thesis by (simp add: download_image_def)
qed

theorem download_image_refuses_forbidden_examples:
  "download_image example_lib example_net 10485760 ''ftp://example.com/a.png'' = (None, [])
   \<and> download_image example_lib example_net 10485760 ''http://127.0.0.1/a.png'' = (None, [])
   \<and> download_image example_lib example_net 10485760 ''https://db.internal/a.png'' = (None, [])"
proof -
  have "download_image example_lib example_net 10485760 ''ftp://example.com/a.png'' = (None, [])"
    by (rule download_image_refuses_forbidden
          [where parsed = "\<lparr>url_scheme = ''ftp'', url_hostname = Some ''example.com''\<rparr>"])
       (simp_all add: example_lib_def)
  moreover
  have "download_image example_lib example_net 10485760 ''http://127.0.0.1/a.png'' = (None, [])"
    by (rule download_image_refuses_forbidden
          [where parsed = "\<lparr>url_scheme = ''http'', url_hostname = Some ''127.0.0.1''\<rparr>"])
       (simp_all add: example_lib_def is_private_ip_def)
  moreover
  have "download_image example_lib example_net 10485760 ''https://db.internal/a.png'' = (None, [])"
    by (rule download_image_refuses_forbidden
          [where parsed = "\<lparr>url_scheme = ''https'', url_hostname = Some ''db.internal''\<rparr>"])
       (simp_all add: example_lib_def is_private_ip_def is_ip_format_def DANGEROUS_PATTERNS_def
          suffix_to_prefix)
  ultimately show ?thesis by simp
qed

text \<open>
  The suffix rule is anchored at a label boundary: the host notlocalhost ends with the entry
  localhost, is not refused, is resolved, and is downloaded.
\<close>

theorem suffix_localhost_not_refused:
  "''localhost'' \<in> set DANGEROUS_PATTERNS
   \<and> suffix ''localhost'' ''notlocalhost''
   \<and> urlparse example_lib ''http://notlocalhost/a.png''
       = Some \<lparr>url_scheme = ''http'', url_hostname = Some ''notlocalhost''\<rparr>
   \<and> download_image example_lib example_net 10485760 ''http://notlocalhost/a.png''
       = (Some ''img'', [Resolve ''notlocalhost'' AF_INET,
                         Get ''http://notlocalhost/a.png'' ''notlocalhost'' ''93.184.216.34''])"
  by (simp add: download_image_def is_safe_url_with_ip_def example_lib_def example_net_def
        is_ip_format_def is_private_ip_def DANGEROUS_PATTERNS_def matches_pattern_def
        resolve_hostname_def suffix_to_prefix)

text \<open>
  C6. The host 2130706433 is the decimal form of 127.0.0.1. \<open>_is_ip_format\<close> recognises it
  through \<open>int\<close>, but \<open>_is_private_ip\<close> is given the same string, which \<open>ip_address\<close> does
  not parse, and answers False: the check accepts the host as safe, pinned to itself.
\<close>

theorem decimal_loopback_accepted:
  "is_ip_format example_lib ''2130706433''
   \<and> \<not> is_private_ip example_lib ''2130706433''
   \<and> is_safe_url_with_ip example_lib example_net ''http://2130706433/a.png''
       = (Some (''2130706433'', ''2130706433''), [])"
  by (simp add: is_safe_url_with_ip_def example_lib_def is_ip_format_def is_private_ip_def)

subsection \<open>Watermark application\<close>

lemma apply_gemini_watermark_fragments:
  "apply_gemini_watermark P h img watermark opacity =
     (case check_image_safety (h ! img) of
        ((False, error_msg), lg) \<Rightarrow> (Inr None, lg @ [Error_safety_check error_msg], h)
      | ((True, _), lg) \<Rightarrow>
          (case copy_as_rgba h img of (result, h1) \<Rightarrow>
             (case calculate_gemini_position (width (h1 ! result)) (height (h1 ! result))
                     (h1 ! watermark) of (x, y) \<Rightarrow>
                if x < 0 \<or> y < 0 then
                  (Inr (Some (fst (img_convert h1 img RGB))), lg @ [Warning_skip_watermark],
                   snd (img_convert h1 img RGB))
                else
                  (case prepare_watermark P h1 watermark
                          (width (h1 ! watermark), height (h1 ! watermark)) opacity of
                     None \<Rightarrow> (Inl Pillow_error, lg, h1)
                   | Some (rw, h2) \<Rightarrow>
                       (case paste_and_flatten P h2 result rw (x, y) of
                          None \<Rightarrow> (Inl Pillow_error, lg, h2)
                        | Some (r, h3) \<Rightarrow> (Inr (Some r), lg, h3))))))"
  by (simp add: apply_gemini_watermark_def copy_as_rgba_def prepare_watermark_def
        paste_and_flatten_def Let_def
      split: prod.split bool.split option.split)

lemma apply_doubao_watermark_fragments:
  "apply_doubao_watermark P ratio h img (Some watermark) opacity =
     (case check_image_safety (h ! img) of
        ((False, error_msg), lg) \<Rightarrow> (Inr None, lg @ [Error_safety_check error_msg], h)
      | ((True, _), lg) \<Rightarrow>
          (case copy_as_rgba h img of (result, h1) \<Rightarrow>
             (case calculate_doubao_size ratio (width (h1 ! img)) (height (h1 ! img)) of
                None \<Rightarrow> (Inl ZeroDivisionError, lg, h1)
              | Some (wm_width, wm_height) \<Rightarrow>
                  (case prepare_watermark P h1 watermark (wm_width, wm_height) opacity of
                     None \<Rightarrow> (Inl Pillow_error, lg, h1)
                   | Some (rw, h2) \<Rightarrow>
                       (case paste_and_flatten P h2 result rw
                               (calculate_doubao_position (width (h2 ! img)) (height (h2 ! img))
                                  wm_width wm_height) of
                          None \<Rightarrow> (Inl Pillow_error, lg, h2)
                        | Some (r, h3) \<Rightarrow> (Inr (Some r), lg, h3))))))"
  by (simp add: apply_doubao_watermark_def copy_as_rgba_def prepare_watermark_def
        paste_and_flatten_def Let_def
      split: prod.split bool.split option.split)

lemmas gemini_position_defs = calculate_gemini_position_def LARGE_IMAGE_THRESHOLD_def
  LARGE_IMAGE_MARGIN_def SMALL_IMAGE_MARGIN_def Let_def

lemma frame_length: "take (length h) h1 = h \<Longrightarrow> length h \<le> length h1"
proof -
  assume "take (length h) h1 = h"
  then have "length (take (length h) h1) = length h" by simp
  then show ?thesis by (simp add: min_def split: if_splits)
qed

lemma frame_nth: "take (length h) h1 = h \<Longrightarrow> i < length h \<Longrightarrow> h1 ! i = h ! i"
  by (metis nth_take)

lemma frame_trans:
  assumes "take (length h) h1 = h" "take (length h1) h2 = h1"
  shows "take (length h) h2 = h"
proof -
  from assms(1) have "length h \<le> length h1" by (rule frame_length)
  then have "take (length h) (take (length h1) h2) = take (length h) h2"
    by (simp add: min_def)
  with assms show ?thesis by simp
qed

lemma copy_as_rgba_spec:
  assumes "img < length h"
  obtains result h1 where "copy_as_rgba h img = (result, h1)"
    and "take (length h) h1 = h" and "length h \<le> result" and "result < length h1"
    and "h1 ! result = convert_image RGBA (h ! img)"
proof (cases "mode (h ! img) = RGBA")
  case True
  show ?thesis
  proof (rule that [of "length h" "h @ [h ! img]"])
    show "copy_as_rgba h img = (length h, h @ [h ! img])"
      using True by (simp add: copy_as_rgba_def img_copy_def)
    show "(h @ [h ! img]) ! length h = convert_image RGBA (h ! img)"
      using True by (simp add: convert_image_def)
  qed simp_all
next
  case False
  show ?thesis
  proof (rule that [of "Suc (length h)" "h @ [h ! img, convert_image RGBA (h ! img)]"])
    show "copy_as_rgba h img = (Suc (length h), h @ [h ! img, convert_image RGBA (h ! img)])"
      using False by (simp add: copy_as_rgba_def img_copy_def img_convert_def)
    show "(h @ [h ! img, convert_image RGBA (h ! img)]) ! Suc (length h)
            = convert_image RGBA (h ! img)"
      by (simp add: nth_append)
  qed simp_all
qed

lemma prepare_watermark_None:
  "resize_lanczos P (h ! watermark) sz = None \<Longrightarrow>
     prepare_watermark P h watermark sz opacity = None"
  by (simp add: prepare_watermark_def img_resize_def)

lemma prepare_watermark_Some:
  assumes "resize_lanczos P (h ! watermark) sz = Some resized"
  obtains rw h2 where "prepare_watermark P h watermark sz opacity = Some (rw, h2)"
    and "take (length h) h2 = h" and "length h \<le> rw" and "rw < length h2"
    and "h2 ! rw = with_opacity (convert_image RGBA resized) opacity"
proof (cases "mode resized = RGBA")
  case True
  show ?thesis
  proof (rule that [of "length h" "(h @ [resized])[length h := with_opacity resized opacity]"])
    show "prepare_watermark P h watermark sz opacity
            = Some (length h, (h @ [resized])[length h := with_opacity resized opacity])"
      using True assms by (simp add: prepare_watermark_def img_resize_def apply_opacity_def)
    show "(h @ [resized])[length h := with_opacity resized opacity] ! length h
            = with_opacity (convert_image RGBA resized) opacity"
      using True by (simp add: convert_image_def)
  qed simp_all
next
  case False
  show ?thesis
  proof (rule that [of "Suc (length h)"
           "(h @ [resized, convert_image RGBA resized])
              [Suc (length h) := with_opacity (convert_image RGBA resized) opacity]"])
    show "prepare_watermark P h watermark sz opacity
            = Some (Suc (length h), (h @ [resized, convert_image RGBA resized])
                 [Suc (length h) := with_opacity (convert_image RGBA resized) opacity])"
      using False assms
      by (simp add: prepare_watermark_def img_resize_def apply_opacity_def img_convert_def
            nth_append)
  qed simp_all
qed

lemma paste_and_flatten_None:
  "paste_masked P (h ! result) (h ! rw) pos (h ! rw) = None \<Longrightarrow>
     paste_and_flatten P h result rw pos = None"
  by (simp add: paste_and_flatten_def img_paste_def)

lemma paste_and_flatten_Some:
  assumes "paste_masked P (h ! result) (h ! rw) pos (h ! rw) = Some pasted"
    and "result < length h" and "n \<le> result"
  obtains r h3 where "paste_and_flatten P h result rw pos = Some (r, h3)"
    and "take n h3 = take n h" and "length h \<le> r" and "r < length h3"
    and "h3 ! r = convert_image RGB pasted"
proof (rule that [of "length h" "h[result := pasted] @ [convert_image RGB pasted]"])
  show "paste_and_flatten P h result rw pos
          = Some (length h, h[result := pasted] @ [convert_image RGB pasted])"
    using assms by (simp add: paste_and_flatten_def img_paste_def img_convert_def)
  show "take n (h[result := pasted] @ [convert_image RGB pasted]) = take n h"
    using assms by simp
  show "(h[result := pasted] @ [convert_image RGB pasted]) ! length h = convert_image RGB pasted"
    by (simp add: nth_append)
qed simp_all

lemma apply_gemini_watermark_refines:
  assumes "img < length h" "watermark < length h"
  shows "observe (apply_gemini_watermark P h img watermark opacity)
           = gemini_value P (h ! img) (h ! watermark) opacity
         \<and> take (length h) (snd (snd (apply_gemini_watermark P h img watermark opacity))) = h"
proof -
  obtain ok msg lg where chk: "check_image_safety (h ! img) = ((ok, msg), lg)"
    by (metis prod.exhaust)
  show ?thesis
  proof (cases ok)
    case False
    with chk show ?thesis
      by (simp add: apply_gemini_watermark_fragments gemini_value_def observe_def)
  next
    case True
    from copy_as_rgba_spec [OF assms(1)]
    obtain result h1 where c: "copy_as_rgba h img = (result, h1)"
      and f1: "take (length h) h1 = h" and r1: "length h \<le> result" "result < length h1"
      and v1: "h1 ! result = convert_image RGBA (h ! img)" by blast
    from f1 have len1: "length h \<le> length h1" by (rule frame_length)
    from f1 assms have i1: "h1 ! img = h ! img" and w1: "h1 ! watermark = h ! watermark"
      by (simp_all add: frame_nth)
    obtain x y where pos: "calculate_gemini_position (width (convert_image RGBA (h ! img)))
        (height (convert_image RGBA (h ! img))) (h ! watermark) = (x, y)"
      by (metis prod.exhaust)
    show ?thesis
    proof (cases "x < 0 \<or> y < 0")
      case skip: True
      with chk True c v1 w1 i1 pos f1 len1 show ?thesis
        by (simp add: apply_gemini_watermark_fragments gemini_value_def observe_def
              img_convert_def)
    next
      case paste: False
      show ?thesis
      proof (cases "resize_lanczos P (h ! watermark) (width (h ! watermark), height (h ! watermark))")
        case None
        with chk True c v1 w1 i1 pos f1 paste
          prepare_watermark_None [of P h1 watermark
            "(width (h ! watermark), height (h ! watermark))" opacity]
        show ?thesis
          by (simp add: apply_gemini_watermark_fragments gemini_value_def observe_def)
      next
        case (Some resized)
        with w1 have "resize_lanczos P (h1 ! watermark)
            (width (h ! watermark), height (h ! watermark)) = Some resized" by simp
        from prepare_watermark_Some [OF this, of opacity]
        obtain rw h2 where p: "prepare_watermark P h1 watermark
              (width (h ! watermark), height (h ! watermark)) opacity = Some (rw, h2)"
          and f2: "take (length h1) h2 = h1" and r2: "length h1 \<le> rw" "rw < length h2"
          and v2: "h2 ! rw = with_opacity (convert_image RGBA resized) opacity" by blast
        from f2 r1 have res2: "h2 ! result = h1 ! result" by (simp add: frame_nth)
        from f2 have len2: "length h1 \<le> length h2" by (rule frame_length)
        from f1 f2 have f12: "take (length h) h2 = h" by (rule frame_trans)
        show ?thesis
        proof (cases "paste_masked P (convert_image RGBA (h ! img))
                 (with_opacity (convert_image RGBA resized) opacity) (x, y)
                 (with_opacity (convert_image RGBA resized) opacity)")
          case None
          with res2 v1 v2 have "paste_and_flatten P h2 result rw (x, y) = None"
            by (simp add: paste_and_flatten_None)
          with chk True c v1 w1 i1 pos paste Some p f12 None show ?thesis
            by (simp add: apply_gemini_watermark_fragments gemini_value_def observe_def)
        next
          case (Some pasted)
          with res2 v1 v2 have "paste_masked P (h2 ! result) (h2 ! rw) (x, y) (h2 ! rw) = Some pasted"
            by simp
          moreover from r1 len2 have "result < length h2" by simp
          ultimately obtain r h3 where q: "paste_and_flatten P h2 result rw (x, y) = Some (r, h3)"
            and f3: "take (length h) h3 = take (length h) h2"
            and v3: "h3 ! r = convert_image RGB pasted"
            using paste_and_flatten_Some [of P h2 result rw "(x, y)" pasted "length h"] r1(1)
            by blast
          with chk True c v1 w1 i1 pos paste \<open>resize_lanczos P (h ! watermark) _ = Some resized\<close>
               p f12 Some show ?thesis
            by (simp add: apply_gemini_watermark_fragments gemini_value_def observe_def)
        qed
      qed
    qed
  qed
qed

lemma apply_doubao_watermark_refines:
  assumes "img < length h" "\<forall>w. watermark = Some w \<longrightarrow> w < length h"
  shows "observe (apply_doubao_watermark P ratio h img watermark opacity)
           = doubao_value P ratio (h ! img) (map_option (nth h) watermark) opacity
         \<and> take (length h)
              (snd (snd (apply_doubao_watermark P ratio h img watermark opacity))) = h"
proof (cases watermark)
  case None
  then show ?thesis
    by (simp add: apply_doubao_watermark_def doubao_value_def observe_def)
next
  case wm: (Some watermark')
  with assms have wlt: "watermark' < length h" by simp
  obtain ok msg lg where chk: "check_image_safety (h ! img) = ((ok, msg), lg)"
    by (metis prod.exhaust)
  show ?thesis
  proof (cases ok)
    case False
    with chk wm show ?thesis
      by (simp add: apply_doubao_watermark_fragments doubao_value_def observe_def)
  next
    case True
    from copy_as_rgba_spec [OF assms(1)]
    obtain result h1 where c: "copy_as_rgba h img = (result, h1)"
      and f1: "take (length h) h1 = h" and r1: "length h \<le> result" "result < length h1"
      and v1: "h1 ! result = convert_image RGBA (h ! img)" by blast
    from f1 have len1: "length h \<le> length h1" by (rule frame_length)
    from f1 assms wlt have i1: "h1 ! img = h ! img" and w1: "h1 ! watermark' = h ! watermark'"
      by (simp_all add: frame_nth)
    show ?thesis
    proof (cases "calculate_doubao_size ratio (width (h ! img)) (height (h ! img))")
      case None
      with chk True c i1 f1 wm show ?thesis
        by (simp add: apply_doubao_watermark_fragments doubao_value_def observe_def)
    next
      case sz: (Some size)
      obtain ww wh where size: "size = (ww, wh)" by (metis prod.exhaust)
      show ?thesis
      proof (cases "resize_lanczos P (h ! watermark') (ww, wh)")
        case None
        with chk True c i1 w1 f1 wm sz size
          prepare_watermark_None [of P h1 watermark' "(ww, wh)" opacity]
        show ?thesis
          by (simp add: apply_doubao_watermark_fragments doubao_value_def observe_def)
      next
        case (Some resized)
        with w1 have "resize_lanczos P (h1 ! watermark') (ww, wh) = Some resized" by simp
        from prepare_watermark_Some [OF this, of opacity]
        obtain rw h2 where p: "prepare_watermark P h1 watermark' (ww, wh) opacity = Some (rw, h2)"
          and f2: "take (length h1) h2 = h1" and r2: "length h1 \<le> rw" "rw < length h2"
          and v2: "h2 ! rw = with_opacity (convert_image RGBA resized) opacity" by blast
        from f2 r1 have res2: "h2 ! result = h1 ! result" by (simp add: frame_nth)
        from f2 have len2: "length h1 \<le> length h2" by (rule frame_length)
        from f1 f2 have f12: "take (length h) h2 = h" by (rule frame_trans)
        from f12 assms(1) have i2: "h2 ! img = h ! img" by (simp add: frame_nth)
        let ?pos = "calculate_doubao_position (width (h ! img)) (height (h ! img)) ww wh"
        show ?thesis
        proof (cases "paste_masked P (convert_image RGBA (h ! img))
                 (with_opacity (convert_image RGBA resized) opacity) ?pos
                 (with_opacity (convert_image RGBA resized) opacity)")
          case None
          with res2 v1 v2 have "paste_and_flatten P h2 result rw ?pos = None"
            by (simp add: paste_and_flatten_None)
          with chk True c i1 i2 w1 wm sz size Some p f12 None show ?thesis
            by (simp add: apply_doubao_watermark_fragments doubao_value_def observe_def)
        next
          case pasted: (Some pasted)
          with res2 v1 v2 have "paste_masked P (h2 ! result) (h2 ! rw) ?pos (h2 ! rw) = Some pasted"
            by simp
          moreover from r1 len2 have "result < length h2" by simp
          ultimately obtain r h3 where q: "paste_and_flatten P h2 result rw ?pos = Some (r, h3)"
            and f3: "take (length h) h3 = take (length h) h2"
            and v3: "h3 ! r = convert_image RGB pasted"
            using paste_and_flatten_Some [of P h2 result rw ?pos pasted "length h"] r1(1)
            by blast
          with chk True c i1 i2 w1 wm sz size Some p f12 pasted show ?thesis
            by (simp add: apply_doubao_watermark_fragments doubao_value_def observe_def)
        qed
      qed
    qed
  qed
qed

lemma convert_image_size [simp]:
  "width (convert_image m i) = width i" "height (convert_image m i) = height i"
  by (cases m; simp add: convert_image_def)+

lemma observe_returned:
  assumes "observe res = (Inr (Some v), lg)"
  obtains r h1 where "res = (Inr (Some r), lg, h1)" "h1 ! r = v"
proof -
  obtain a lg' h1 where res: "res = (a, lg', h1)" by (metis prod.exhaust)
  with assms have "map_sum id (map_option (nth h1)) a = Inr (Some v)" "lg' = lg"
    by (simp_all add: observe_def)
  then obtain r where "a = Inr (Some r)" "h1 ! r = v"
    by (cases a) auto
  with res \<open>lg' = lg\<close> that show ?thesis by blast
qed

lemma check_image_safety_accepts:
  "width i * height i \<le> 10000 * 10000 \<Longrightarrow>
     \<exists>msg lg. check_image_safety i = ((True, msg), lg)"
  by (simp add: check_image_safety_def MAX_IMAGE_PIXELS_def Let_def)

lemma check_image_safety_log:
  "Warning_skip_watermark \<notin> set (snd (check_image_safety i))"
  by (simp add: check_image_safety_def Let_def)

lemma gemini_value_skip:
  assumes "width source * height source \<le> 10000 * 10000"
    and "calculate_gemini_position (width source) (height source) wm = (x, y)"
    and "x < 0 \<or> y < 0"
  shows "gemini_value P source wm opacity
           = (Inr (Some (convert_image RGB source)),
              snd (check_image_safety source) @ [Warning_skip_watermark])"
proof -
  from check_image_safety_accepts [OF assms(1)] obtain msg lg
    where "check_image_safety source = ((True, msg), lg)" by blast
  then show ?thesis using assms(2,3)
    by (simp add: gemini_value_def)
qed

text \<open>
  C3, as amended. When the source passes the pixel-count gate and the gemini position is
  negative on either axis, \<open>apply_gemini_watermark\<close> raises nothing, logs the skip warning,
  pastes nothing and returns \<open>image.convert ("RGB")\<close>: a new image whose content is the
  source converted to RGB. For a source in mode RGB that content is identical to the
  source; for a source in mode RGBA the alpha band is dropped. No object that existed
  before the call is changed.
\<close>

theorem gemini_skip_returns_flattened_source:
  assumes "img < length h" "watermark < length h"
    and "width (h ! img) * height (h ! img) \<le> 10000 * 10000"
    and "calculate_gemini_position (width (h ! img)) (height (h ! img)) (h ! watermark) = (x, y)"
    and "x < 0 \<or> y < 0"
  shows "\<exists>r h1. apply_gemini_watermark P h img watermark opacity
                  = (Inr (Some r), snd (check_image_safety (h ! img)) @ [Warning_skip_watermark], h1)
           \<and> h1 ! r = convert_image RGB (h ! img)
           \<and> (mode (h ! img) = RGB \<longrightarrow> h1 ! r = h ! img)
           \<and> take (length h) h1 = h"
proof -
  from apply_gemini_watermark_refines [OF assms(1,2), of P opacity]
    gemini_value_skip [OF assms(3,4,5), of P opacity]
  have obs: "observe (apply_gemini_watermark P h img watermark opacity)
           = (Inr (Some (convert_image RGB (h ! img))),
              snd (check_image_safety (h ! img)) @ [Warning_skip_watermark])"
    and frame: "take (length h) (snd (snd (apply_gemini_watermark P h img watermark opacity))) = h"
    by simp_all
  from observe_returned [OF obs] obtain r h1
    where res: "apply_gemini_watermark P h img watermark opacity
                  = (Inr (Some r), snd (check_image_safety (h ! img)) @ [Warning_skip_watermark], h1)"
      and v: "h1 ! r = convert_image RGB (h ! img)" by blast
  moreover from frame res have "take (length h) h1 = h" by simp
  moreover have "mode (h ! img) = RGB \<longrightarrow> convert_image RGB (h ! img) = h ! img"
    by (simp add: convert_image_def)
  ultimately show ?thesis by auto
qed

theorem gemini_skip_examples:
  "(\<exists>r h1. apply_gemini_watermark example_pillow [example_wide, example_watermark] 0 1 0
              = (Inr (Some r), [Warning_skip_watermark], h1)
        \<and> h1 ! r = example_wide
        \<and> take 2 h1 = [example_wide, example_watermark])"
proof -
  have pos: "calculate_gemini_position 100 1 example_watermark = (67, - 32)"
    by (simp add: gemini_position_defs example_watermark_def)
  have "snd (check_image_safety example_wide) = []" "mode example_wide = RGB"
    by (simp_all add: check_image_safety_def example_wide_def WARNING_PIXELS_def
          MAX_IMAGE_PIXELS_def)
  moreover have "width example_wide * height example_wide \<le> 10000 * 10000"
    "width example_wide = 100" "height example_wide = 1"
    by (simp_all add: example_wide_def)
  ultimately show ?thesis
    using gemini_skip_returns_flattened_source
         [of 0 "[example_wide, example_watermark]" 1 67 "- 32" example_pillow 0] pos
    by (auto simp add: numeral_2_eq_2)
qed

text \<open>
  A 1 x 1 source in mode RGBA with a 1 x 1 watermark: the position is negative, and the
  image returned is in mode RGB with three bands per pixel, not the source.
\<close>

theorem gemini_skip_drops_alpha:
  "calculate_gemini_position 1 1 example_watermark = (- 32, - 32)
   \<and> observe (apply_gemini_watermark example_pillow [example_source, example_watermark] 0 1 0)
       = (Inr (Some \<lparr>mode = RGB, width = 1, height = 1, pixels = [[1, 2, 3]]\<rparr>),
          [Warning_skip_watermark])
   \<and> \<lparr>mode = RGB, width = 1, height = 1, pixels = [[1, 2, 3]]\<rparr> \<noteq> example_source"
  by (simp add: apply_gemini_watermark_refines gemini_value_def gemini_position_defs
        check_image_safety_def MAX_IMAGE_PIXELS_def WARNING_PIXELS_def convert_image_def
        example_source_def example_watermark_def)

text \<open>
  C9. For every store, source, watermark and opacity, a call of \<open>apply_gemini_watermark\<close>
  or of \<open>apply_doubao_watermark\<close> leaves every object that existed before the call as it
  was, the source and the watermark among them: all writes go to objects the call
  allocated. A second call with the same arguments, in the store the first call left,
  returns or raises the same, with an image of the same content, and logs the same.
\<close>

theorem apply_watermark_source_unchanged:
  assumes "img < length h" "watermark < length h"
  shows
    "(let res = apply_gemini_watermark P h img watermark opacity; h1 = snd (snd res)
      in take (length h) h1 = h \<and> h1 ! img = h ! img \<and> h1 ! watermark = h ! watermark
         \<and> observe (apply_gemini_watermark P h1 img watermark opacity) = observe res)
     \<and> (let res = apply_doubao_watermark P ratio h img (Some watermark) opacity;
            h1 = snd (snd res)
        in take (length h) h1 = h \<and> h1 ! img = h ! img \<and> h1 ! watermark = h ! watermark
           \<and> observe (apply_doubao_watermark P ratio h1 img (Some watermark) opacity)
               = observe res)"
proof -
  let ?g = "apply_gemini_watermark P h img watermark opacity"
  let ?d = "apply_doubao_watermark P ratio h img (Some watermark) opacity"
  from apply_gemini_watermark_refines [OF assms, of P opacity]
  have g: "observe ?g = gemini_value P (h ! img) (h ! watermark) opacity"
    and gf: "take (length h) (snd (snd ?g)) = h" by simp_all
  from gf assms have gi: "snd (snd ?g) ! img = h ! img" "snd (snd ?g) ! watermark = h ! watermark"
    and gl: "img < length (snd (snd ?g))" "watermark < length (snd (snd ?g))"
    using frame_length [OF gf] by (simp_all add: frame_nth)
  from apply_gemini_watermark_refines [OF gl, of P opacity] gi g
  have g2: "observe (apply_gemini_watermark P (snd (snd ?g)) img watermark opacity) = observe ?g"
    by simp
  from assms have dw: "\<forall>w. Some watermark = Some w \<longrightarrow> w < length h" by simp
  from apply_doubao_watermark_refines [OF assms(1) dw, of P ratio opacity]
  have d: "observe ?d = doubao_value P ratio (h ! img) (Some (h ! watermark)) opacity"
    and df: "take (length h) (snd (snd ?d)) = h" by simp_all
  from df assms have di: "snd (snd ?d) ! img = h ! img" "snd (snd ?d) ! watermark = h ! watermark"
    and dl: "img < length (snd (snd ?d))" "watermark < length (snd (snd ?d))"
    using frame_length [OF df] by (simp_all add: frame_nth)
  from dl have dw2: "\<forall>w. Some watermark = Some w \<longrightarrow> w < length (snd (snd ?d))" by simp
  from apply_doubao_watermark_refines [OF dl(1) dw2, of P ratio opacity] di d
  have d2: "observe (apply_doubao_watermark P ratio (snd (snd ?d)) img (Some watermark) opacity)
              = observe ?d"
    by simp
  from gf gi g2 df di d2 show ?thesis by (simp add: Let_def)
qed

lemma example_doubao_size: "calculate_doubao_size 2 100 1 = Some (13, 6)"
  by code_simp

lemma example_doubao_position: "calculate_doubao_position 100 1 13 6 = (84, - 5)"
  by code_simp

lemma example_doubao_value:
  "doubao_value example_pillow 2 example_wide (Some example_watermark) 0
     = (Inr (Some example_wide), [])"
  by (simp add: doubao_value_def example_doubao_size example_doubao_position
        check_image_safety_def MAX_IMAGE_PIXELS_def WARNING_PIXELS_def
        example_wide_def example_watermark_def example_pillow_def convert_image_def
        with_opacity_def comp_def)

theorem apply_watermark_source_unchanged_example:
  "(let res = apply_doubao_watermark example_pillow 2 [example_wide, example_watermark] 0 (Some 1) 0;
        h1 = snd (snd res)
    in observe res = (Inr (Some example_wide), [])
       \<and> take 2 h1 = [example_wide, example_watermark]
       \<and> h1 ! 0 = example_wide \<and> h1 ! 1 = example_watermark
       \<and> observe (apply_doubao_watermark example_pillow 2 h1 0 (Some 1) 0)
           = (Inr (Some example_wide), []))"
proof -
  have "observe (apply_doubao_watermark example_pillow 2 [example_wide, example_watermark] 0 (Some 1) 0)
          = (Inr (Some example_wide), [])"
    by (simp add: apply_doubao_watermark_refines example_doubao_value)
  with apply_watermark_source_unchanged
         [of 0 "[example_wide, example_watermark]" 1 example_pillow 0 2]
  show ?thesis by (simp add: Let_def numeral_2_eq_2)
qed

lemma doubao_value_log:
  "Warning_skip_watermark \<notin> set (snd (doubao_value P ratio source wm opacity))"
  using check_image_safety_log [of source]
  by (auto simp: doubao_value_def split: option.splits prod.splits bool.splits)

lemma gemini_value_log:
  assumes "calculate_gemini_position (width source) (height source) wm = (x, y)"
    and "\<not> (x < 0 \<or> y < 0)"
  shows "Warning_skip_watermark \<notin> set (snd (gemini_value P source wm opacity))"
  using check_image_safety_log [of source] assms
  by (auto simp: gemini_value_def split: option.splits prod.splits bool.splits)

lemma doubao_value_pasted:
  assumes "width source * height source \<le> 10000 * 10000"
    and "calculate_doubao_size ratio (width source) (height source) = Some (wm_width, wm_height)"
    and "resize_lanczos P wm (wm_width, wm_height) = Some resized"
    and "paste_masked P (convert_image RGBA source)
           (with_opacity (convert_image RGBA resized) opacity)
           (calculate_doubao_position (width source) (height source) wm_width wm_height)
           (with_opacity (convert_image RGBA resized) opacity) = Some pasted"
  shows "fst (doubao_value P ratio source (Some wm) opacity) = Inr (Some (convert_image RGB pasted))"
proof -
  from check_image_safety_accepts [OF assms(1)] obtain msg lg
    where "check_image_safety source = ((True, msg), lg)" by blast
  then show ?thesis using assms(2,3,4)
    by (simp add: doubao_value_def)
qed

text \<open>
  C10. \<open>apply_doubao_watermark\<close> never logs the skip warning, and whenever the source passes
  the gate and Pillow resizes and pastes, it returns the pasted image, whatever the sign
  of the position it computed. \<open>apply_gemini_watermark\<close> tests the position: when it is
  negative on either axis the call logs the skip warning and returns the source converted
  to RGB with nothing pasted, and otherwise it does not log the warning.
\<close>

theorem skip_only_for_gemini:
  assumes "img < length h" "watermark < length h"
  shows
    "Warning_skip_watermark
       \<notin> set (fst (snd (apply_doubao_watermark P ratio h img (Some watermark) opacity)))
     \<and> (width (h ! img) * height (h ! img) \<le> 10000 * 10000
        \<and> calculate_doubao_size ratio (width (h ! img)) (height (h ! img))
            = Some (wm_width, wm_height)
        \<and> resize_lanczos P (h ! watermark) (wm_width, wm_height) = Some resized
        \<and> paste_masked P (convert_image RGBA (h ! img))
             (with_opacity (convert_image RGBA resized) opacity)
             (calculate_doubao_position (width (h ! img)) (height (h ! img)) wm_width wm_height)
             (with_opacity (convert_image RGBA resized) opacity) = Some pasted
        \<longrightarrow> fst (observe (apply_doubao_watermark P ratio h img (Some watermark) opacity))
              = Inr (Some (convert_image RGB pasted)))
     \<and> (width (h ! img) * height (h ! img) \<le> 10000 * 10000
        \<and> calculate_gemini_position (width (h ! img)) (height (h ! img)) (h ! watermark) = (x, y)
        \<and> (x < 0 \<or> y < 0)
        \<longrightarrow> observe (apply_gemini_watermark P h img watermark opacity)
              = (Inr (Some (convert_image RGB (h ! img))),
                 snd (check_image_safety (h ! img)) @ [Warning_skip_watermark]))
     \<and> (calculate_gemini_position (width (h ! img)) (height (h ! img)) (h ! watermark) = (x, y)
        \<and> \<not> (x < 0 \<or> y < 0)
        \<longrightarrow> Warning_skip_watermark
              \<notin> set (fst (snd (apply_gemini_watermark P h img watermark opacity))))"
proof -
  have snd_observe: "\<And>res. snd (observe res) = fst (snd res)"
    by (simp add: observe_def split: prod.split)
  from assms have dw: "\<forall>w. Some watermark = Some w \<longrightarrow> w < length h" by simp
  from apply_doubao_watermark_refines [OF assms(1) dw, of P ratio opacity]
  have d: "observe (apply_doubao_watermark P ratio h img (Some watermark) opacity)
             = doubao_value P ratio (h ! img) (Some (h ! watermark)) opacity" by simp
  from apply_gemini_watermark_refines [OF assms, of P opacity]
  have g: "observe (apply_gemini_watermark P h img watermark opacity)
             = gemini_value P (h ! img) (h ! watermark) opacity" by simp
  have c1: "Warning_skip_watermark
       \<notin> set (fst (snd (apply_doubao_watermark P ratio h img (Some watermark) opacity)))"
    using doubao_value_log [of P ratio "h ! img" "Some (h ! watermark)" opacity] d
    by (simp add: snd_observe [symmetric])
  have c2: "width (h ! img) * height (h ! img) \<le> 10000 * 10000
        \<and> calculate_doubao_size ratio (width (h ! img)) (height (h ! img))
            = Some (wm_width, wm_height)
        \<and> resize_lanczos P (h ! watermark) (wm_width, wm_height) = Some resized
        \<and> paste_masked P (convert_image RGBA (h ! img))
             (with_opacity (convert_image RGBA resized) opacity)
             (calculate_doubao_position (width (h ! img)) (height (h ! img)) wm_width wm_height)
             (with_opacity (convert_image RGBA resized) opacity) = Some pasted
        \<longrightarrow> fst (observe (apply_doubao_watermark P ratio h img (Some watermark) opacity))
              = Inr (Some (convert_image RGB pasted))"
    using doubao_value_pasted [of "h ! img" ratio wm_width wm_height P "h ! watermark" resized
            opacity pasted] d
    by simp
  have c3: "width (h ! img) * height (h ! img) \<le> 10000 * 10000
        \<and> calculate_gemini_position (width (h ! img)) (height (h ! img)) (h ! watermark) = (x, y)
        \<and> (x < 0 \<or> y < 0)
        \<longrightarrow> observe (apply_gemini_watermark P h img watermark opacity)
              = (Inr (Some (convert_image RGB (h ! img))),
                 snd (check_image_safety (h ! img)) @ [Warning_skip_watermark])"
    using gemini_value_skip [of "h ! img" "h ! watermark" x y P opacity] g by simp
  have c4: "calculate_gemini_position (width (h ! img)) (height (h ! img)) (h ! watermark) = (x, y)
        \<and> \<not> (x < 0 \<or> y < 0)
        \<longrightarrow> Warning_skip_watermark
              \<notin> set (fst (snd (apply_gemini_watermark P h img watermark opacity)))"
    using gemini_value_log [of "h ! img" "h ! watermark" x y P opacity] g
    by (simp add: snd_observe [symmetric])
  from c1 c2 c3 c4 show ?thesis by blast
qed

theorem skip_only_for_gemini_example:
  "calculate_doubao_position 100 1 13 6 = (84, - 5)
   \<and> observe (apply_doubao_watermark example_pillow 2 [example_wide, example_watermark] 0 (Some 1) 0)
       = (Inr (Some example_wide), [])
   \<and> calculate_gemini_position 100 1 example_watermark = (67, - 32)
   \<and> observe (apply_gemini_watermark example_pillow [example_wide, example_watermark] 0 1 0)
       = (Inr (Some example_wide), [Warning_skip_watermark])"
proof -
  have pos: "calculate_gemini_position 100 1 example_watermark = (67, - 32)"
    by (simp add: gemini_position_defs example_watermark_def)
  have w: "width example_wide = 100" "height example_wide = 1"
    "snd (check_image_safety example_wide) = []"
    "convert_image RGB example_wide = example_wide"
    by (simp_all add: example_wide_def check_image_safety_def WARNING_PIXELS_def
          MAX_IMAGE_PIXELS_def convert_image_def)
  have rz: "resize_lanczos example_pillow example_watermark (13, 6)
      = Some \<lparr>mode = RGBA, width = 13, height = 6, pixels = replicate 78 [255, 255, 255, 255]\<rparr>"
    by (simp add: example_pillow_def example_watermark_def)
  have ps: "\<And>dst src pos msk. paste_masked example_pillow dst src pos msk = Some dst"
    by (simp add: example_pillow_def)
  have roundtrip: "convert_image RGB (convert_image RGBA example_wide) = example_wide"
    by (simp add: convert_image_def example_wide_def comp_def)
  note inst = skip_only_for_gemini
         [of 0 "[example_wide, example_watermark]" 1 example_pillow 2 0 13 6
             "\<lparr>mode = RGBA, width = 13, height = 6, pixels = replicate 78 [255, 255, 255, 255]\<rparr>"
             "convert_image RGBA example_wide" 67 "- 32"]
  have "fst (observe (apply_doubao_watermark example_pillow 2
               [example_wide, example_watermark] 0 (Some 1) 0)) = Inr (Some example_wide)"
    using inst w rz ps roundtrip example_doubao_size by simp
  moreover have "snd (observe (apply_doubao_watermark example_pillow 2
               [example_wide, example_watermark] 0 (Some 1) 0)) = []"
    by (simp add: apply_doubao_watermark_refines example_doubao_value)
  moreover have "observe (apply_gemini_watermark example_pillow
               [example_wide, example_watermark] 0 1 0)
       = (Inr (Some example_wide), [Warning_skip_watermark])"
    using inst w pos by simp
  ultimately show ?thesis using pos example_doubao_position
    by (simp add: prod_eq_iff)
qed

subsection \<open>Proportional geometry (doubao)\<close>

lemma rne_upper: "of_int (rne y) \<le> y + 1 / 2"
  unfolding rne_def Let_def by (simp; linarith)

lemma rne_lower: "y - 1 / 2 \<le> of_int (rne y)"
  unfolding rne_def Let_def by (simp; linarith)

lemma rne_ge_floor: "\<lfloor>y\<rfloor> \<le> rne y"
  unfolding rne_def Let_def by simp

lemma rne_ge:
  assumes "of_int k \<le> y"
  shows "k \<le> rne y"
proof -
  from assms have "k \<le> \<lfloor>y\<rfloor>" by (simp add: le_floor_iff)
  with rne_ge_floor [of y] show ?thesis by linarith
qed

lemma rne_ge_half:
  assumes "of_int k - 1 / 2 < y"
  shows "k \<le> rne y"
proof (cases "of_int k \<le> y")
  case True
  then show ?thesis by (rule rne_ge)
next
  case False
  with assms have "\<lfloor>y\<rfloor> = k - 1" by (intro floor_unique) auto
  with assms show ?thesis unfolding rne_def Let_def by simp
qed

lemma rne_of_int: "rne (of_int k) = k"
  by (simp add: rne_def)

lemma pow2_pos: "0 < power_int (2::rat) k"
  by (simp add: zero_less_power_int)

lemma ilog2_bounds:
  assumes "0 < x"
  shows "power_int 2 (ilog2 x) \<le> x" and "x < power_int 2 (ilog2 x + 1)"
proof -
  show "power_int 2 (ilog2 x) \<le> x"
  proof (cases "1 \<le> x")
    case True
    then have m: "0 < \<lfloor>x\<rfloor>" by simp
    from bitlen_bounds [OF m] have "2 ^ nat (bitlen \<lfloor>x\<rfloor> - 1) \<le> \<lfloor>x\<rfloor>" by simp
    then have "(of_int (2 ^ nat (bitlen \<lfloor>x\<rfloor> - 1)) :: rat) \<le> of_int \<lfloor>x\<rfloor>"
      by (simp only: of_int_le_iff)
    also have "\<dots> \<le> x" by simp
    finally have "(2::rat) ^ nat (bitlen \<lfloor>x\<rfloor> - 1) \<le> x" by simp
    moreover from m have "0 \<le> bitlen \<lfloor>x\<rfloor> - 1" by (simp add: bitlen_alt_def)
    ultimately show ?thesis using True by (simp add: ilog2_def power_int_nonneg_exp)
  next
    case False
    with assms have "1 < 1 / x" by simp
    then have c: "0 < \<lceil>1 / x\<rceil> - 1" by (simp add: less_ceiling_iff)
    from bitlen_bounds [OF c] have "\<lceil>1 / x\<rceil> - 1 < 2 ^ nat (bitlen (\<lceil>1 / x\<rceil> - 1))" by simp
    then have "\<lceil>1 / x\<rceil> \<le> 2 ^ nat (bitlen (\<lceil>1 / x\<rceil> - 1))" by simp
    then have "(of_int \<lceil>1 / x\<rceil> :: rat) \<le> of_int (2 ^ nat (bitlen (\<lceil>1 / x\<rceil> - 1)))"
      by (simp only: of_int_le_iff)
    with le_of_int_ceiling [of "1 / x"]
    have "1 / x \<le> of_int (2 ^ nat (bitlen (\<lceil>1 / x\<rceil> - 1)))" by (rule order_trans)
    then have "1 / x \<le> 2 ^ nat (bitlen (\<lceil>1 / x\<rceil> - 1))" by simp
    with assms have "1 / 2 ^ nat (bitlen (\<lceil>1 / x\<rceil> - 1)) \<le> x"
      by (simp add: field_simps)
    moreover have "power_int (2::rat) (- bitlen (\<lceil>1 / x\<rceil> - 1))
        = 1 / 2 ^ nat (bitlen (\<lceil>1 / x\<rceil> - 1))"
      using bitlen_nonneg [of "\<lceil>1 / x\<rceil> - 1"]
      by (simp add: power_int_minus_divide power_int_nonneg_exp)
    ultimately show ?thesis using False by (simp add: ilog2_def)
  qed
  show "x < power_int 2 (ilog2 x + 1)"
  proof (cases "1 \<le> x")
    case True
    then have m: "0 < \<lfloor>x\<rfloor>" by simp
    from bitlen_bounds [OF m] have "\<lfloor>x\<rfloor> + 1 \<le> 2 ^ nat (bitlen \<lfloor>x\<rfloor>)" by simp
    then have "(of_int (\<lfloor>x\<rfloor> + 1) :: rat) \<le> of_int (2 ^ nat (bitlen \<lfloor>x\<rfloor>))"
      by (simp only: of_int_le_iff)
    moreover have "x < of_int (\<lfloor>x\<rfloor> + 1)" using floor_correct [of x] by simp
    ultimately have "x < 2 ^ nat (bitlen \<lfloor>x\<rfloor>)" by simp
    then show ?thesis using True bitlen_nonneg [of "\<lfloor>x\<rfloor>"]
      by (simp add: ilog2_def power_int_nonneg_exp)
  next
    case False
    with assms have "1 < 1 / x" by simp
    then have c: "0 < \<lceil>1 / x\<rceil> - 1" by (simp add: less_ceiling_iff)
    let ?b = "bitlen (\<lceil>1 / x\<rceil> - 1)"
    from c have b1: "1 \<le> ?b" by (simp add: bitlen_alt_def)
    from bitlen_bounds [OF c] have "2 ^ nat (?b - 1) \<le> \<lceil>1 / x\<rceil> - 1" by simp
    then have "(of_int (2 ^ nat (?b - 1)) :: rat) \<le> of_int (\<lceil>1 / x\<rceil> - 1)"
      by (simp only: of_int_le_iff)
    moreover have "of_int (\<lceil>1 / x\<rceil> - 1) < 1 / x" using ceiling_correct [of "1 / x"] by simp
    ultimately have "2 ^ nat (?b - 1) < 1 / x" by simp
    with assms have "x < 1 / 2 ^ nat (?b - 1)" by (simp add: field_simps)
    moreover have "power_int (2::rat) (- ?b + 1) = 1 / 2 ^ nat (?b - 1)"
    proof -
      have "- ?b + 1 = - (?b - 1)" by simp
      then show ?thesis using b1
        by (simp only: power_int_minus_divide) (simp add: power_int_nonneg_exp)
    qed
    ultimately show ?thesis using False by (simp add: ilog2_def)
  qed
qed

lemma fl_zero: "fl 0 = 0"
  by (simp add: fl_def)

lemma fl_pos_eq:
  assumes "0 < x"
  shows "fl x = of_int (rne (x / power_int 2 (max (ilog2 x - 52) (- 1074))))
                  * power_int 2 (max (ilog2 x - 52) (- 1074))"
  using assms by (simp add: fl_def Let_def)

lemma ilog2_le:
  assumes "0 < x" "x < power_int 2 k"
  shows "ilog2 x < k"
proof (rule ccontr)
  assume "\<not> ilog2 x < k"
  then have "power_int (2::rat) k \<le> power_int 2 (ilog2 x)"
    by (intro power_int_increasing) auto
  with ilog2_bounds(1) [OF assms(1)] assms(2) show False by linarith
qed

lemma ilog2_ge:
  assumes "0 < x" "power_int 2 k \<le> x"
  shows "k \<le> ilog2 x"
proof (rule ccontr)
  assume "\<not> k \<le> ilog2 x"
  then have "power_int (2::rat) (ilog2 x + 1) \<le> power_int 2 k"
    by (intro power_int_increasing) auto
  with ilog2_bounds(2) [OF assms(1)] assms(2) show False by linarith
qed

lemma unit_bounds:
  assumes "0 < x"
  shows "power_int 2 (ilog2 x - 52) * 2 ^ 52 \<le> x"
    and "x < power_int 2 (ilog2 x - 52) * 2 ^ 53"
proof -
  have "power_int (2::rat) (ilog2 x - 52) * power_int 2 52 = power_int 2 (ilog2 x)"
    using power_int_add [of "2::rat" "ilog2 x - 52" 52] by simp
  then show "power_int 2 (ilog2 x - 52) * 2 ^ 52 \<le> x"
    using ilog2_bounds(1) [OF assms] by simp
  have "power_int (2::rat) (ilog2 x - 52) * power_int 2 53 = power_int 2 (ilog2 x + 1)"
    using power_int_add [of "2::rat" "ilog2 x - 52" 53] by (simp add: add.commute)
  then show "x < power_int 2 (ilog2 x - 52) * 2 ^ 53"
    using ilog2_bounds(2) [OF assms] by simp
qed

lemma fl_upper_normal:
  assumes "0 < x" "power_int 2 (- 1022) \<le> x"
  shows "fl x \<le> x + x / 2 ^ 53"
proof -
  let ?u = "power_int (2::rat) (ilog2 x - 52)"
  from ilog2_ge [OF assms] have "max (ilog2 x - 52) (- 1074) = ilog2 x - 52" by simp
  with fl_pos_eq [OF assms(1)] have "fl x = of_int (rne (x / ?u)) * ?u" by simp
  also have "\<dots> \<le> (x / ?u + 1 / 2) * ?u"
    using rne_upper [of "x / ?u"] pow2_pos [of "ilog2 x - 52"]
    by (intro mult_right_mono) auto
  also have "\<dots> = x + ?u / 2"
    using pow2_pos [of "ilog2 x - 52"] by (simp add: field_simps)
  also have "\<dots> \<le> x + x / 2 ^ 53"
    using unit_bounds(1) [OF assms(1)] by simp
  finally show ?thesis .
qed

lemma fl_upper_subnormal:
  assumes "0 < x" "x < power_int 2 (- 1022)"
  shows "fl x \<le> x + power_int 2 (- 1075)"
proof -
  let ?u = "power_int (2::rat) (- 1074)"
  from ilog2_le [OF assms] have "max (ilog2 x - 52) (- 1074) = - 1074" by simp
  with fl_pos_eq [OF assms(1)] have "fl x = of_int (rne (x / ?u)) * ?u" by simp
  also have "\<dots> \<le> (x / ?u + 1 / 2) * ?u"
    using rne_upper [of "x / ?u"] pow2_pos [of "- 1074"]
    by (intro mult_right_mono) auto
  also have "\<dots> = x + ?u / 2"
    using pow2_pos [of "- 1074"] by (simp add: field_simps)
  also have "?u / 2 = power_int 2 (- 1075)"
  proof -
    have "power_int (2::rat) (- 1075) * power_int 2 1 = power_int 2 (- 1074)"
      using power_int_add [of "2::rat" "- 1075" 1] by simp
    then show ?thesis by simp
  qed
  finally show ?thesis .
qed

lemma fl_nonneg:
  assumes "0 \<le> x"
  shows "0 \<le> fl x"
proof (cases "x = 0")
  case True
  then show ?thesis by (simp add: fl_zero)
next
  case False
  with assms have x: "0 < x" by simp
  let ?u = "power_int (2::rat) (max (ilog2 x - 52) (- 1074))"
  have "0 \<le> x / ?u" using x pow2_pos [of "max (ilog2 x - 52) (- 1074)"] by simp
  then have "0 \<le> rne (x / ?u)" using rne_ge [of 0 "x / ?u"] by simp
  then show ?thesis using fl_pos_eq [OF x] pow2_pos [of "max (ilog2 x - 52) (- 1074)"]
    by simp
qed

text \<open>An integer multiple of the unit, for a unit with a non-positive exponent.\<close>

lemma int_over_unit:
  assumes "k \<le> 0"
  shows "of_int n / power_int (2::rat) k = of_int (n * 2 ^ nat (- k))"
proof -
  from assms have "power_int (2::rat) k = 1 / 2 ^ nat (- k)"
    using power_int_minus_divide [of "2::rat" "- k"] by (simp add: power_int_nonneg_exp)
  then show ?thesis by simp
qed

lemma fl_ge_int:
  assumes "0 < x" "x < 2 ^ 53" "of_int n \<le> x"
  shows "of_int n \<le> fl x"
proof -
  let ?k = "max (ilog2 x - 52) (- 1074)"
  let ?u = "power_int (2::rat) ?k"
  have "x < power_int 2 53" using assms(2) by simp
  from ilog2_le [OF assms(1) this] have k: "?k \<le> 0" by simp
  have u: "0 < ?u" by (rule pow2_pos)
  from assms(3) u have "of_int n / ?u \<le> x / ?u" by (simp add: divide_right_mono)
  then have "of_int (n * 2 ^ nat (- ?k)) \<le> x / ?u"
    by (simp only: int_over_unit [OF k])
  then have "n * 2 ^ nat (- ?k) \<le> rne (x / ?u)" by (rule rne_ge)
  then have "(of_int (n * 2 ^ nat (- ?k)) :: rat) \<le> of_int (rne (x / ?u))"
    by (simp only: of_int_le_iff)
  then have "of_int n / ?u \<le> of_int (rne (x / ?u))"
    by (simp only: int_over_unit [OF k])
  with u have "of_int n \<le> of_int (rne (x / ?u)) * ?u" by (simp add: field_simps)
  then show ?thesis by (simp only: fl_pos_eq [OF assms(1)])
qed

lemma fl_ge_int_below:
  assumes "1 \<le> x" "x < 2 ^ 53" "x \<le> of_int n" "of_int n - x \<le> x / 2 ^ 54"
  shows "of_int n \<le> fl x"
proof -
  from assms(1) have x: "0 < x" by simp
  have "power_int 2 (- 1022) \<le> (1::rat)"
    using power_int_le_one [of "1 / 2 :: rat" 1022] by (simp add: power_int_minus_divide)
  with assms(1) have normal: "power_int 2 (- 1022) \<le> x" by simp
  let ?k = "ilog2 x - 52"
  let ?u = "power_int (2::rat) ?k"
  from ilog2_ge [OF x normal] have m: "max (ilog2 x - 52) (- 1074) = ?k" by simp
  have "x < power_int 2 53" using assms(2) by simp
  from ilog2_le [OF x this] have k: "?k \<le> 0" by simp
  have u: "0 < ?u" by (rule pow2_pos)
  from unit_bounds(2) [OF x] have "x / 2 ^ 54 < ?u / 2" by simp
  with assms(4) have "of_int n - ?u / 2 < x" by simp
  then have "(of_int n - ?u / 2) / ?u < x / ?u" using u by (rule divide_strict_right_mono)
  moreover from u have "(of_int n - ?u / 2) / ?u = of_int n / ?u - 1 / 2"
    by (simp add: diff_divide_distrib)
  ultimately have "of_int n / ?u - 1 / 2 < x / ?u" by simp
  then have "of_int (n * 2 ^ nat (- ?k)) - 1 / 2 < x / ?u"
    by (simp only: int_over_unit [OF k])
  then have "n * 2 ^ nat (- ?k) \<le> rne (x / ?u)" by (rule rne_ge_half)
  then have "(of_int (n * 2 ^ nat (- ?k)) :: rat) \<le> of_int (rne (x / ?u))"
    by (simp only: of_int_le_iff)
  then have "of_int n / ?u \<le> of_int (rne (x / ?u))"
    by (simp only: int_over_unit [OF k])
  with u have "of_int n \<le> of_int (rne (x / ?u)) * ?u" by (simp add: field_simps)
  then show ?thesis using fl_pos_eq [OF x] m by simp
qed

lemma fl_of_int:
  assumes "0 \<le> n" "n < 2 ^ 53"
  shows "fl (of_int n) = of_int n"
proof (cases "n = 0")
  case True
  then show ?thesis by (simp add: fl_zero)
next
  case False
  with assms have x: "0 < (of_int n :: rat)" by simp
  let ?x = "of_int n :: rat"
  let ?k = "max (ilog2 ?x - 52) (- 1074)"
  let ?u = "power_int (2::rat) ?k"
  from assms(2) have "(of_int n :: rat) < of_int (2 ^ 53)" by (simp only: of_int_less_iff)
  then have "?x < power_int 2 53" by simp
  from ilog2_le [OF x this] have k: "?k \<le> 0" by simp
  have u: "0 < ?u" by (rule pow2_pos)
  have "rne (?x / ?u) = n * 2 ^ nat (- ?k)"
    by (simp only: int_over_unit [OF k] rne_of_int)
  then have "of_int (rne (?x / ?u)) * ?u = of_int (n * 2 ^ nat (- ?k)) * ?u" by simp
  also have "\<dots> = (?x / ?u) * ?u" by (simp only: int_over_unit [OF k])
  also have "\<dots> = ?x" using u by simp
  finally show ?thesis by (simp only: fl_pos_eq [OF x])
qed

lemma floor_fl:
  assumes "0 \<le> x" "x < 2 ^ 53" "x + x / 2 ^ 53 < of_int \<lfloor>x\<rfloor> + 1"
  shows "\<lfloor>fl x\<rfloor> = \<lfloor>x\<rfloor>"
proof (cases "x = 0")
  case True
  then show ?thesis by (simp add: fl_zero)
next
  case False
  with assms have x: "0 < x" by simp
  note x53 = assms(2)
  have lower: "of_int \<lfloor>x\<rfloor> \<le> fl x"
    by (rule fl_ge_int [OF x x53]) simp
  have upper: "fl x < of_int \<lfloor>x\<rfloor> + 1"
  proof (cases "power_int 2 (- 1022) \<le> x")
    case True
    from fl_upper_normal [OF x True] assms(3) show ?thesis by simp
  next
    case False
    then have sub: "x < power_int 2 (- 1022)" by simp
    have small: "power_int 2 (- 1022) \<le> (1 / 4 :: rat)"
      using power_int_decreasing [of "- 2" "- 1022" "2::rat"]
        power_int_increasing [of "- 1022" "- 2" "2::rat"]
      by (simp add: power_int_minus_divide)
    have small': "power_int 2 (- 1075) \<le> (1 / 4 :: rat)"
      using power_int_increasing [of "- 1075" "- 2" "2::rat"]
      by (simp add: power_int_minus_divide)
    from fl_upper_subnormal [OF x sub] sub small small' have "fl x < 1" by linarith
    moreover from assms(1) have "0 \<le> (of_int \<lfloor>x\<rfloor> :: rat)" by simp
    ultimately show ?thesis by linarith
  qed
  from lower upper show ?thesis by (intro floor_unique) auto
qed

lemma pow2_m1022_le_one: "power_int 2 (- 1022) \<le> (1::rat)"
  using power_int_le_one [of "1 / 2 :: rat" 1022] by (simp add: power_int_minus_divide)

lemma floor_fl_near:
  assumes "1 \<le> x" "x < 2 ^ 53" "of_int n - x \<le> x / 2 ^ 54" "x + x / 2 ^ 53 < of_int n + 1"
  shows "\<lfloor>fl x\<rfloor> = n"
proof -
  from assms(1) have x: "0 < x" by simp
  from assms(1) pow2_m1022_le_one have normal: "power_int 2 (- 1022) \<le> x" by simp
  have lower: "of_int n \<le> fl x"
  proof (cases "of_int n \<le> x")
    case True
    then show ?thesis by (rule fl_ge_int [OF x assms(2)])
  next
    case False
    then have "x \<le> of_int n" by simp
    then show ?thesis by (rule fl_ge_int_below [OF assms(1,2) _ assms(3)])
  qed
  from fl_upper_normal [OF x normal] assms(4) have "fl x < of_int n + 1" by simp
  with lower show ?thesis by (intro floor_unique) auto
qed

lemma py_int_of_float_fl:
  assumes "0 \<le> x"
  shows "py_int_of_float (fl x) = \<lfloor>fl x\<rfloor>"
  using fl_nonneg [OF assms] by (simp add: py_int_of_float_def)

lemma DOUBAO_SIZE_RATIO_value: "DOUBAO_SIZE_RATIO = 1170935903116329 / 9007199254740992"
  by code_simp

lemma DOUBAO_MARGIN_RATIO_value: "DOUBAO_MARGIN_RATIO = 1080863910568919 / 36028797018963968"
  by code_simp

lemma fl_of_int_small:
  assumes "0 \<le> W" "W \<le> 10 ^ 12"
  shows "fl (of_int W) = of_int W"
  using assms by (intro fl_of_int) auto

lemma doubao_width:
  assumes "0 \<le> W" "W \<le> 10 ^ 12"
  shows "py_int_of_float (fl (fl (of_int W) * DOUBAO_SIZE_RATIO)) = 13 * W div 100"
proof -
  let ?x = "of_int W * (1170935903116329 / 9007199254740992) :: rat"
  let ?n = "13 * W div 100"
  have "100 * ?n \<le> 13 * W" "13 * W \<le> 100 * ?n + 99" by simp_all
  then have "(of_int (100 * ?n) :: rat) \<le> of_int (13 * W)"
    "(of_int (13 * W) :: rat) \<le> of_int (100 * ?n + 99)"
    by (simp_all only: of_int_le_iff)
  then have n: "100 * (of_int ?n :: rat) \<le> 13 * of_int W"
    "13 * (of_int W :: rat) \<le> 100 * of_int ?n + 99" by simp_all
  from assms have "(of_int 0 :: rat) \<le> of_int W" "(of_int W :: rat) \<le> of_int (10 ^ 12)"
    by (simp_all only: of_int_le_iff)
  then have W: "0 \<le> (of_int W :: rat)" "(of_int W :: rat) \<le> 10 ^ 12" by simp_all
  have x0: "0 \<le> ?x" using W by simp
  have lo: "of_int ?n \<le> ?x" using n W by simp
  have hi: "?x + ?x / 2 ^ 53 < of_int ?n + 1" using n W by simp
  then have "?x < of_int ?n + 1" using x0 by simp
  with lo have fx: "\<lfloor>?x\<rfloor> = ?n" by (intro floor_unique) auto
  have "?x < 2 ^ 53" using W by simp
  from floor_fl [OF x0 this] hi fx have "\<lfloor>fl ?x\<rfloor> = ?n" by simp
  with py_int_of_float_fl [OF x0] show ?thesis
    by (simp add: fl_of_int_small [OF assms] DOUBAO_SIZE_RATIO_value)
qed

lemma doubao_margin:
  assumes "0 \<le> W" "W \<le> 10 ^ 12"
  shows "py_int_of_float (fl (fl (of_int W) * DOUBAO_MARGIN_RATIO)) = 3 * W div 100"
proof -
  let ?x = "of_int W * (1080863910568919 / 36028797018963968) :: rat"
  let ?n = "3 * W div 100"
  have "100 * ?n \<le> 3 * W" "3 * W \<le> 100 * ?n + 99" by simp_all
  then have "(of_int (100 * ?n) :: rat) \<le> of_int (3 * W)"
    "(of_int (3 * W) :: rat) \<le> of_int (100 * ?n + 99)"
    by (simp_all only: of_int_le_iff)
  then have n: "100 * (of_int ?n :: rat) \<le> 3 * of_int W"
    "3 * (of_int W :: rat) \<le> 100 * of_int ?n + 99" by simp_all
  from assms have "(of_int 0 :: rat) \<le> of_int W" "(of_int W :: rat) \<le> of_int (10 ^ 12)"
    by (simp_all only: of_int_le_iff)
  then have W: "0 \<le> (of_int W :: rat)" "(of_int W :: rat) \<le> 10 ^ 12" by simp_all
  have x0: "0 \<le> ?x" using W by simp
  have x53: "?x < 2 ^ 53" using W by simp
  have hi: "?x + ?x / 2 ^ 53 < of_int ?n + 1" using n W by simp
  have "\<lfloor>fl ?x\<rfloor> = ?n"
  proof (cases "100 * ?n = 3 * W")
    case False
    with \<open>100 * ?n \<le> 3 * W\<close> have "100 * ?n + 1 \<le> 3 * W" by simp
    then have "(of_int (100 * ?n + 1) :: rat) \<le> of_int (3 * W)" by (simp only: of_int_le_iff)
    then have "100 * (of_int ?n :: rat) + 1 \<le> 3 * of_int W" by simp
    then have lo: "of_int ?n \<le> ?x" using W by simp
    from hi x0 have "?x < of_int ?n + 1" by simp
    with lo have fx: "\<lfloor>?x\<rfloor> = ?n" by (intro floor_unique) auto
    from floor_fl [OF x0 x53] hi fx show ?thesis by simp
  next
    case True
    then have eq: "100 * (of_int ?n :: rat) = 3 * of_int W"
      by (metis of_int_mult of_int_numeral)
    show ?thesis
    proof (cases "W = 0")
      case True
      then show ?thesis by (simp add: fl_zero)
    next
      case False
      with assms \<open>100 * ?n = 3 * W\<close> have "100 \<le> W" by presburger
      then have "(of_int 100 :: rat) \<le> of_int W" by (simp only: of_int_le_iff)
      then have W100: "100 \<le> (of_int W :: rat)" by simp
      then have x1: "1 \<le> ?x" by simp
      have near: "of_int ?n - ?x \<le> ?x / 2 ^ 54" using eq W by simp
      from floor_fl_near [OF x1 x53 near hi] show ?thesis .
    qed
  qed
  with py_int_of_float_fl [OF x0] show ?thesis
    by (simp add: fl_of_int_small [OF assms] DOUBAO_MARGIN_RATIO_value)
qed

text \<open>
  The exact quotient of an integer \<open>w\<close> by a ratio \<open>p / q\<close> of positive integers with
  \<open>w * q < 2 ^ 53\<close> is below 2^53 and is not within one rounding step below the next
  integer.
\<close>

lemma fraction_quotient:
  assumes "0 \<le> w" "0 < p" "0 < q" "w * q < 2 ^ 53"
  shows "of_int w / (of_int p / of_int q :: rat) < 2 ^ 53"
    and "of_int w / (of_int p / of_int q :: rat) + of_int w / (of_int p / of_int q) / 2 ^ 53
           < of_int \<lfloor>of_int w / (of_int p / of_int q :: rat)\<rfloor> + 1"
proof -
  define a where "a = w * q"
  let ?x = "of_int a / of_int p :: rat"
  let ?m = "a div p"
  have xeq: "of_int w / (of_int p / of_int q) = ?x" by (simp add: a_def)
  from assms have a0: "0 \<le> a" and a53: "a < 2 ^ 53" by (simp_all add: a_def)
  have P: "0 < (of_int p :: rat)" using assms by simp
  have A: "0 \<le> (of_int a :: rat)" using a0 by simp
  have fx: "\<lfloor>?x\<rfloor> = ?m" by (rule floor_divide_of_int_eq)
  have "(of_int a :: rat) < of_int (2 ^ 53)" using a53 by (simp only: of_int_less_iff)
  then have A53: "(of_int a :: rat) < 2 ^ 53" by simp
  have "1 \<le> p" using assms by simp
  then have "(of_int 1 :: rat) \<le> of_int p" by (simp only: of_int_le_iff)
  then have P1: "1 \<le> (of_int p :: rat)" by simp
  have "?x \<le> of_int a"
  proof -
    have "of_int a / of_int p \<le> (of_int a :: rat) / 1"
      using A P1 by (intro divide_left_mono) auto
    then show ?thesis by simp
  qed
  with A53 have x53: "?x < 2 ^ 53" by simp
  then show "of_int w / (of_int p / of_int q :: rat) < 2 ^ 53" by (simp only: xeq)
  have "a = p * ?m + a mod p" by simp
  moreover have "a mod p \<le> p - 1" using assms(2) by simp
  ultimately have "a + 1 \<le> p * ?m + p" by linarith
  then have "(of_int (a + 1) :: rat) \<le> of_int (p * ?m + p)" by (simp only: of_int_le_iff)
  then have r: "(of_int a :: rat) + 1 \<le> of_int p * of_int ?m + of_int p" by simp
  have "of_int a / 2 ^ 53 < (1::rat)" using A53 by simp
  with r have "(of_int a :: rat) + of_int a / 2 ^ 53 < of_int p * (of_int ?m + 1)"
    by (simp add: algebra_simps)
  then have "((of_int a :: rat) + of_int a / 2 ^ 53) / of_int p
               < of_int p * (of_int ?m + 1) / of_int p"
    using P by (rule divide_strict_right_mono)
  then have "?x + ?x / 2 ^ 53 < of_int ?m + 1"
    using P by (simp add: add_divide_distrib)
  then show "of_int w / (of_int p / of_int q :: rat) + of_int w / (of_int p / of_int q) / 2 ^ 53
           < of_int \<lfloor>of_int w / (of_int p / of_int q :: rat)\<rfloor> + 1"
    by (simp only: xeq fx)
qed

lemma floor_hundredths:
  "\<lfloor>of_int W * (13 / 100 :: rat)\<rfloor> = 13 * W div 100"
  "\<lfloor>of_int W * (3 / 100 :: rat)\<rfloor> = 3 * W div 100"
proof -
  have "of_int W * (13 / 100 :: rat) = of_int (13 * W) / of_int 100" by simp
  then show "\<lfloor>of_int W * (13 / 100 :: rat)\<rfloor> = 13 * W div 100"
    by (simp only: floor_divide_of_int_eq)
  have "of_int W * (3 / 100 :: rat) = of_int (3 * W) / of_int 100" by simp
  then show "\<lfloor>of_int W * (3 / 100 :: rat)\<rfloor> = 3 * W div 100"
    by (simp only: floor_divide_of_int_eq)
qed

lemma floor_fl_bracket:
  assumes "0 \<le> x" "x < 2 ^ 53"
  shows "\<lfloor>x\<rfloor> \<le> \<lfloor>fl x\<rfloor>" and "\<lfloor>fl x\<rfloor> \<le> \<lfloor>x\<rfloor> + 1"
proof -
  have both: "\<lfloor>x\<rfloor> \<le> \<lfloor>fl x\<rfloor> \<and> \<lfloor>fl x\<rfloor> \<le> \<lfloor>x\<rfloor> + 1"
  proof (cases "x = 0")
    case True
    then show ?thesis by (simp add: fl_zero)
  next
    case False
    with assms have x: "0 < x" by simp
    have "of_int \<lfloor>x\<rfloor> \<le> fl x" by (rule fl_ge_int [OF x assms(2)]) simp
    then have lower: "\<lfloor>x\<rfloor> \<le> \<lfloor>fl x\<rfloor>" by (simp add: le_floor_iff)
    have step: "x / 2 ^ 53 < 1" using assms(2) by simp
    have "fl x < x + 1"
    proof (cases "power_int 2 (- 1022) \<le> x")
      case True
      from fl_upper_normal [OF x True] step show ?thesis by linarith
    next
      case False
      then have sub: "x < power_int 2 (- 1022)" by simp
      have "power_int 2 (- 1075) \<le> (1 / 4 :: rat)"
        using power_int_increasing [of "- 1075" "- 2" "2::rat"]
        by (simp add: power_int_minus_divide)
      with fl_upper_subnormal [OF x sub] show ?thesis by linarith
    qed
    moreover have "x < of_int \<lfloor>x\<rfloor> + 1" using floor_correct [of x] by simp
    ultimately have "fl x < of_int (\<lfloor>x\<rfloor> + 2)" by simp
    then have "\<lfloor>fl x\<rfloor> < \<lfloor>x\<rfloor> + 2" by (simp only: floor_less_iff)
    with lower show ?thesis by simp
  qed
  from both show "\<lfloor>x\<rfloor> \<le> \<lfloor>fl x\<rfloor>" and "\<lfloor>fl x\<rfloor> \<le> \<lfloor>x\<rfloor> + 1" by simp_all
qed

text \<open>
  C8, as amended. Python computes the doubao geometry in binary64 floating point. For
  every image width W and height H between 0 and 10^12 and every aspect-ratio constant r
  other than zero: the target width is floor (W * 0.13); the target height is
  \<open>int (target width / r)\<close>, the truncation of the correctly rounded quotient, which for a
  positive r and a quotient below 2^53 is floor (target width / r) or that floor plus one,
  and is the floor whenever the exact quotient is not within one rounding step (a relative
  2^-53) below the next integer; the margins are floor (W * 0.03) and floor (H * 0.03);
  the position is (W - margin_x - wmW, H - margin_y - wmH).
\<close>

theorem doubao_geometry:
  assumes "0 \<le> W" "W \<le> 10 ^ 12" "0 \<le> H" "H \<le> 10 ^ 12" "r \<noteq> 0"
  shows "calculate_doubao_size r W H
           = Some (\<lfloor>of_int W * (13 / 100 :: rat)\<rfloor>,
                   py_int_of_float (fl (of_int \<lfloor>of_int W * (13 / 100 :: rat)\<rfloor> / r)))
         \<and> (0 < r \<and> of_int \<lfloor>of_int W * (13 / 100 :: rat)\<rfloor> / r < 2 ^ 53 \<longrightarrow>
              \<lfloor>of_int \<lfloor>of_int W * (13 / 100 :: rat)\<rfloor> / r\<rfloor>
                \<le> py_int_of_float (fl (of_int \<lfloor>of_int W * (13 / 100 :: rat)\<rfloor> / r))
              \<and> py_int_of_float (fl (of_int \<lfloor>of_int W * (13 / 100 :: rat)\<rfloor> / r))
                \<le> \<lfloor>of_int \<lfloor>of_int W * (13 / 100 :: rat)\<rfloor> / r\<rfloor> + 1)
         \<and> (0 < r \<and> of_int \<lfloor>of_int W * (13 / 100 :: rat)\<rfloor> / r < 2 ^ 53
              \<and> of_int \<lfloor>of_int W * (13 / 100 :: rat)\<rfloor> / r
                   + of_int \<lfloor>of_int W * (13 / 100 :: rat)\<rfloor> / r / 2 ^ 53
                 < of_int \<lfloor>of_int \<lfloor>of_int W * (13 / 100 :: rat)\<rfloor> / r\<rfloor> + 1 \<longrightarrow>
              py_int_of_float (fl (of_int \<lfloor>of_int W * (13 / 100 :: rat)\<rfloor> / r))
                = \<lfloor>of_int \<lfloor>of_int W * (13 / 100 :: rat)\<rfloor> / r\<rfloor>)
         \<and> calculate_doubao_margin W H
             = (\<lfloor>of_int W * (3 / 100 :: rat)\<rfloor>, \<lfloor>of_int H * (3 / 100 :: rat)\<rfloor>)
         \<and> calculate_doubao_position W H wm_width wm_height
             = (W - \<lfloor>of_int W * (3 / 100 :: rat)\<rfloor> - wm_width,
                H - \<lfloor>of_int H * (3 / 100 :: rat)\<rfloor> - wm_height)"
proof -
  let ?w = "13 * W div 100"
  let ?x = "of_int ?w / r :: rat"
  have w0: "0 \<le> ?w" using assms(1) by simp
  have w53: "?w < 2 ^ 53" using assms(1,2) by simp
  have flw: "fl (of_int ?w) = of_int ?w" by (rule fl_of_int [OF w0 w53])
  have size: "calculate_doubao_size r W H = Some (?w, py_int_of_float (fl ?x))"
    unfolding calculate_doubao_size_def Let_def doubao_width [OF assms(1,2)] flw
    using assms(5) by (simp only: if_False)
  have bracket: "0 < r \<and> ?x < 2 ^ 53 \<longrightarrow>
      \<lfloor>?x\<rfloor> \<le> py_int_of_float (fl ?x) \<and> py_int_of_float (fl ?x) \<le> \<lfloor>?x\<rfloor> + 1"
  proof
    assume a: "0 < r \<and> ?x < 2 ^ 53"
    with w0 have x0: "0 \<le> ?x" by simp
    from floor_fl_bracket [OF x0] a py_int_of_float_fl [OF x0]
    show "\<lfloor>?x\<rfloor> \<le> py_int_of_float (fl ?x) \<and> py_int_of_float (fl ?x) \<le> \<lfloor>?x\<rfloor> + 1"
      by simp
  qed
  have exact: "0 < r \<and> ?x < 2 ^ 53 \<and> ?x + ?x / 2 ^ 53 < of_int \<lfloor>?x\<rfloor> + 1 \<longrightarrow>
      py_int_of_float (fl ?x) = \<lfloor>?x\<rfloor>"
  proof
    assume a: "0 < r \<and> ?x < 2 ^ 53 \<and> ?x + ?x / 2 ^ 53 < of_int \<lfloor>?x\<rfloor> + 1"
    with w0 have x0: "0 \<le> ?x" by simp
    from a have "\<lfloor>fl ?x\<rfloor> = \<lfloor>?x\<rfloor>" by (intro floor_fl [OF x0]) simp_all
    with py_int_of_float_fl [OF x0] show "py_int_of_float (fl ?x) = \<lfloor>?x\<rfloor>" by simp
  qed
  have margin: "calculate_doubao_margin W H = (3 * W div 100, 3 * H div 100)"
    by (simp add: calculate_doubao_margin_def Let_def doubao_margin [OF assms(1,2)]
          doubao_margin [OF assms(3,4)])
  have position: "calculate_doubao_position W H wm_width wm_height
             = (W - 3 * W div 100 - wm_width, H - 3 * H div 100 - wm_height)"
    by (simp add: calculate_doubao_position_def Let_def doubao_margin [OF assms(1,2)]
          doubao_margin [OF assms(3,4)])
  from size bracket exact margin position show ?thesis
    by (simp only: floor_hundredths)
qed

theorem doubao_geometry_scenario:
  "calculate_doubao_size 2 1000 800 = Some (130, 65)
   \<and> calculate_doubao_margin 1000 800 = (30, 24)
   \<and> calculate_doubao_position 1000 800 130 65 = (840, 711)"
proof -
  have "\<lfloor>of_int 1000 * (13 / 100 :: rat)\<rfloor> = 130" "\<lfloor>of_int 1000 * (3 / 100 :: rat)\<rfloor> = 30"
    "\<lfloor>of_int 800 * (3 / 100 :: rat)\<rfloor> = 24" "\<lfloor>of_int 130 / (2 :: rat)\<rfloor> = 65"
    by simp_all
  with doubao_geometry [of 1000 800 2 130 65] show ?thesis by simp
qed

text \<open>
  With the aspect-ratio constant written 2.2, the float nearest to 22 / 10: a width of 170
  gives the target width 22 and the height 10, while the floor of 22 divided by the float
  is 9; a width of 254 gives the target width 33 and the height 14, while the floor of
  33 / 2.2 is 15.
\<close>

theorem doubao_height_rounds_across_integer:
  "\<lfloor>of_int 170 * (13 / 100 :: rat)\<rfloor> = 22
   \<and> calculate_doubao_size (fl (22 / 10)) 170 100 = Some (22, 10)
   \<and> \<lfloor>of_int 22 / fl (22 / 10)\<rfloor> = 9
   \<and> \<lfloor>of_int 254 * (13 / 100 :: rat)\<rfloor> = 33
   \<and> calculate_doubao_size (fl (22 / 10)) 254 100 = Some (33, 14)
   \<and> \<lfloor>of_int 33 / (22 / 10 :: rat)\<rfloor> = 15"
  by code_simp

end
